theory Spec2Isabelle
  imports Main "HOL-Library.Sublist"
begin


section \<open>Weekdays, frequencies and errors\<close>

text \<open>
  \<^verbatim>\<open>types.ts\<close>: the \<^verbatim>\<open>Weekdays\<close> and \<^verbatim>\<open>Frequencies\<close> constant tables.  In the source
  a weekday is the two-letter string itself; \<open>weekday_of_string\<close> is the membership test
  \<^verbatim>\<open>isWeekday\<close> of \<^verbatim>\<open>utils.ts\<close> together with the reading of the string.
\<close>

datatype Weekday = MO | TU | WE | TH | FR | SA | SU

datatype Frequency = YEARLY | MONTHLY | WEEKLY | DAILY | HOURLY | MINUTELY | SECONDLY

text \<open>
  Every kind of \<^verbatim>\<open>throw new Error(...)\<close> of the source is one constructor.
  \<open>ZoneNotModelled\<close> is not an error of the source: it stands for a result in a time zone
  other than UTC, which needs the host's time-zone database and lies outside this model.
  \<open>NumberNotModelled\<close> is not an error of the source either: it stands for the text of a
  number that is not a safe integer, which JavaScript writes rounded or in exponent notation
  and which lies outside this model.
\<close>

datatype error =
    InvalidWeekday
  | InvalidWeekdayFormat
  | WeekdayOccurrenceZero
  | WeekdayOccurrenceRange
  | InvalidFrequency
  | CountUntilExclusive
  | UntilBeforeDtstart
  | BySetPosAlone
  | DtstartRequired
  | MaxIterationsExceeded
  | MaxIterationsBelowOne
  | InvalidRRuleString
  | InvalidRRuleParameter
  | UnknownRRuleParameter
  | InvalidValue
  | FreqRequired
  | InvalidICSDate
  | RRuleLineNotFound
  | InvalidDtstart
  | ZoneNotModelled
  | NumberNotModelled

fun weekday_string :: "Weekday \<Rightarrow> string" where
  "weekday_string MO = ''MO''"
| "weekday_string TU = ''TU''"
| "weekday_string WE = ''WE''"
| "weekday_string TH = ''TH''"
| "weekday_string FR = ''FR''"
| "weekday_string SA = ''SA''"
| "weekday_string SU = ''SU''"

definition weekday_of_string :: "string \<Rightarrow> Weekday option" where
  "weekday_of_string s =
     (if s = ''MO'' then Some MO else if s = ''TU'' then Some TU
      else if s = ''WE'' then Some WE else if s = ''TH'' then Some TH
      else if s = ''FR'' then Some FR else if s = ''SA'' then Some SA
      else if s = ''SU'' then Some SU else None)"

definition isWeekday :: "string \<Rightarrow> bool" where
  "isWeekday s = (weekday_of_string s \<noteq> None)"

fun frequency_string :: "Frequency \<Rightarrow> string" where
  "frequency_string YEARLY = ''YEARLY''"
| "frequency_string MONTHLY = ''MONTHLY''"
| "frequency_string WEEKLY = ''WEEKLY''"
| "frequency_string DAILY = ''DAILY''"
| "frequency_string HOURLY = ''HOURLY''"
| "frequency_string MINUTELY = ''MINUTELY''"
| "frequency_string SECONDLY = ''SECONDLY''"

definition frequency_of_string :: "string \<Rightarrow> Frequency option" where
  "frequency_of_string s =
     (if s = ''YEARLY'' then Some YEARLY else if s = ''MONTHLY'' then Some MONTHLY
      else if s = ''WEEKLY'' then Some WEEKLY else if s = ''DAILY'' then Some DAILY
      else if s = ''HOURLY'' then Some HOURLY else if s = ''MINUTELY'' then Some MINUTELY
      else if s = ''SECONDLY'' then Some SECONDLY else None)"

section \<open>Strings as the source handles them\<close>

text \<open>
  JavaScript's \<^verbatim>\<open>String.prototype.trim\<close>, \<^verbatim>\<open>toUpperCase\<close> and
  \<^verbatim>\<open>Number.parseInt(s, 10)\<close> on ASCII text.  \<^verbatim>\<open>parseInt\<close> skips leading white space,
  reads an optional sign and the longest run of decimal digits, and is \<^verbatim>\<open>NaN\<close> (here
  \<open>None\<close>) when there is no digit.
\<close>

definition char_code :: "char \<Rightarrow> nat" where
  "char_code c = of_char c"

definition is_space :: "char \<Rightarrow> bool" where
  "is_space c = (char_code c = 32 \<or> (9 \<le> char_code c \<and> char_code c \<le> 13))"

definition trim :: "string \<Rightarrow> string" where
  "trim s = rev (dropWhile is_space (rev (dropWhile is_space s)))"

definition is_digit :: "char \<Rightarrow> bool" where
  "is_digit c = (48 \<le> char_code c \<and> char_code c \<le> 57)"

definition digit_val :: "char \<Rightarrow> nat" where
  "digit_val c = char_code c - 48"

definition is_upper :: "char \<Rightarrow> bool" where
  "is_upper c = (65 \<le> char_code c \<and> char_code c \<le> 90)"

definition is_lower :: "char \<Rightarrow> bool" where
  "is_lower c = (97 \<le> char_code c \<and> char_code c \<le> 122)"

definition upper_char :: "char \<Rightarrow> char" where
  "upper_char c =
     (if is_lower c
      then (case map_of (zip ''abcdefghijklmnopqrstuvwxyz'' ''ABCDEFGHIJKLMNOPQRSTUVWXYZ'') c of
              Some u \<Rightarrow> u | None \<Rightarrow> c)
      else c)"

definition toUpperCase :: "string \<Rightarrow> string" where
  "toUpperCase s = map upper_char s"

fun digits_value :: "nat \<Rightarrow> string \<Rightarrow> nat" where
  "digits_value acc [] = acc"
| "digits_value acc (c # cs) =
     (if is_digit c then digits_value (10 * acc + digit_val c) cs else acc)"

definition parseInteger :: "string \<Rightarrow> int option" where
  "parseInteger value =
     (let s = dropWhile is_space value;
          (neg, ds) = (case s of
                         c # r \<Rightarrow> if c = CHR ''-'' then (True, r)
                                  else if c = CHR ''+'' then (False, r) else (False, s)
                       | [] \<Rightarrow> (False, s))
      in case ds of
           [] \<Rightarrow> None
         | c # _ \<Rightarrow> if is_digit c
                    then Some (if neg then - int (digits_value 0 ds) else int (digits_value 0 ds))
                    else None)"

section \<open>Weekday terms\<close>

text \<open>
  \<^verbatim>\<open>WeekdayValue\<close> of \<^verbatim>\<open>types.ts\<close>: a bare weekday (the string) or the record
  \<^verbatim>\<open>{ weekday, n }\<close>.  What a caller may pass in \<^verbatim>\<open>byweekday\<close> is
  \<^verbatim>\<open>string | WeekdayValue\<close>: any string, or a record whose \<^verbatim>\<open>weekday\<close> is checked at
  run time by \<^verbatim>\<open>isWeekdayValue\<close>.
\<close>

datatype WeekdayValue = Simple Weekday | Nth Weekday int

datatype WeekdayInput = InString string | InRecord string int

text \<open>
  The regular expression \<^verbatim>\<open>/^([+-]?\d{1,2})?([A-Z]{2})$/\<close> of \<^verbatim>\<open>parseWeekdayValue\<close>:
  the last two characters are capital letters, and what precedes them is empty (group 1
  undefined) or an optional sign and one or two digits.
\<close>

definition is_occurrence :: "string \<Rightarrow> bool" where
  "is_occurrence pre =
     (let ds = (case pre of
                  c # r \<Rightarrow> if c = CHR ''+'' \<or> c = CHR ''-'' then r else pre
                | [] \<Rightarrow> [])
      in (length ds = 1 \<or> length ds = 2) \<and> list_all is_digit ds)"

definition match_weekday_token :: "string \<Rightarrow> (string option \<times> string) option" where
  "match_weekday_token s =
     (if length s < 2 then None
      else let pre = take (length s - 2) s; wd = drop (length s - 2) s
           in if \<not> list_all is_upper wd then None
              else if pre = [] then Some (None, wd)
              else if is_occurrence pre then Some (Some pre, wd)
              else None)"

definition parseWeekdayValue :: "string \<Rightarrow> error + WeekdayValue" where
  "parseWeekdayValue value0 =
     (let value = toUpperCase (trim value0)
      in if value = [] then Inl InvalidWeekday
         else case match_weekday_token value of
                None \<Rightarrow> Inl InvalidWeekdayFormat
              | Some (occurrence, weekday) \<Rightarrow>
                  (case weekday_of_string weekday of
                     None \<Rightarrow> Inl InvalidWeekday
                   | Some wd \<Rightarrow>
                       (case occurrence of
                          None \<Rightarrow> Inr (Simple wd)
                        | Some occ \<Rightarrow>
                            (case parseInteger occ of
                               None \<Rightarrow> Inl InvalidWeekdayFormat
                             | Some n \<Rightarrow>
                                 if n = 0 then Inl WeekdayOccurrenceZero
                                 else if n < -53 \<or> n > 53 then Inl WeekdayOccurrenceRange
                                 else Inr (Nth wd n)))))"

definition parseWeekday :: "string \<Rightarrow> error + Weekday" where
  "parseWeekday value0 =
     (let value = toUpperCase (trim value0)
      in if value = [] then Inl InvalidWeekday
         else case weekday_of_string value of
                None \<Rightarrow> Inl InvalidWeekday
              | Some wd \<Rightarrow> Inr wd)"

text \<open>\<^verbatim>\<open>isWeekdayValue\<close> of \<^verbatim>\<open>utils.ts\<close>: the record branch tests \<^verbatim>\<open>n > -53 && n < 53\<close>.\<close>

fun isWeekdayValue :: "WeekdayInput \<Rightarrow> bool" where
  "isWeekdayValue (InString s) = (s \<noteq> [] \<and> isWeekday s)"
| "isWeekdayValue (InRecord w n) = (isWeekday w \<and> n > -53 \<and> n < 53)"

text \<open>
  \<^verbatim>\<open>sanitizeWeekdayValue\<close> of \<^verbatim>\<open>sanitize.ts\<close>: a value that passes \<^verbatim>\<open>isWeekdayValue\<close>
  is returned as it is; any other string is parsed, a parse error giving \<^verbatim>\<open>undefined\<close>
  (\<open>None\<close>); any other record gives \<^verbatim>\<open>undefined\<close>.
\<close>

fun sanitizeWeekdayValue :: "WeekdayInput \<Rightarrow> WeekdayValue option" where
  "sanitizeWeekdayValue (InString s) =
     (if isWeekdayValue (InString s) then map_option Simple (weekday_of_string s)
      else case parseWeekdayValue s of Inl _ \<Rightarrow> None | Inr v \<Rightarrow> Some v)"
| "sanitizeWeekdayValue (InRecord w n) =
     (if isWeekdayValue (InRecord w n) then map_option (\<lambda>d. Nth d n) (weekday_of_string w)
      else None)"

text \<open>The ordinal a textual token \<^verbatim>\<open>[sign]digits\<close> denotes.\<close>

definition token_ordinal :: "string \<Rightarrow> string \<Rightarrow> int" where
  "token_ordinal sign ds =
     (if sign = ''-'' then - int (digits_value 0 ds) else int (digits_value 0 ds))"

section \<open>Moments and the calendar\<close>

text \<open>
  Modelled from the spec: the three Moment variants and their arithmetic live in the external
  package \<^verbatim>\<open>@internationalized/date\<close>, which is not part of the repository.  The
  definitions of this section follow sections 3 and 4.1 of the specification (proleptic
  Gregorian calendar, total order, addition with constrain semantics) and the documented
  behaviour of that package:
  \<^item> \<open>CalendarDate y m d\<close> is a PlainDate, \<open>CalendarDateTime y m d h mi s ms\<close> a
    PlainDateTime, \<open>ZonedDateTime y m d h mi s ms\<close> a zoned moment in the zone \<^verbatim>\<open>UTC\<close>.
    Other zones need the host's time-zone database and are not modelled; years are
    years of the common era.
  \<^item> \<open>add\<close> adds years and months first, clamps the day to the length of the target
    month, then adds weeks, days and the days carried out of the time fields.
  \<^item> \<open>set\<close> overwrites fields and clamps month, day and time fields into range.
  \<^item> \<open>compare\<close> of a PlainDate looks at the calendar day only; of a PlainDateTime at the
    day and then the time of day; of a zoned moment at the instant.
\<close>

datatype DateValue =
    CalendarDate int int int
  | CalendarDateTime int int int int int int int
  | ZonedDateTime int int int int int int int

fun year :: "DateValue \<Rightarrow> int" where
  "year (CalendarDate y m d) = y"
| "year (CalendarDateTime y m d h mi s ms) = y"
| "year (ZonedDateTime y m d h mi s ms) = y"

fun month :: "DateValue \<Rightarrow> int" where
  "month (CalendarDate y m d) = m"
| "month (CalendarDateTime y m d h mi s ms) = m"
| "month (ZonedDateTime y m d h mi s ms) = m"

fun day :: "DateValue \<Rightarrow> int" where
  "day (CalendarDate y m d) = d"
| "day (CalendarDateTime y m d h mi s ms) = d"
| "day (ZonedDateTime y m d h mi s ms) = d"

text \<open>\<^verbatim>\<open>'hour' in date\<close> is \<open>has_time\<close>; the time fields of a PlainDate read as 0 here.\<close>

fun has_time :: "DateValue \<Rightarrow> bool" where
  "has_time (CalendarDate y m d) = False"
| "has_time (CalendarDateTime y m d h mi s ms) = True"
| "has_time (ZonedDateTime y m d h mi s ms) = True"

fun hour :: "DateValue \<Rightarrow> int" where
  "hour (CalendarDate y m d) = 0"
| "hour (CalendarDateTime y m d h mi s ms) = h"
| "hour (ZonedDateTime y m d h mi s ms) = h"

fun minute :: "DateValue \<Rightarrow> int" where
  "minute (CalendarDate y m d) = 0"
| "minute (CalendarDateTime y m d h mi s ms) = mi"
| "minute (ZonedDateTime y m d h mi s ms) = mi"

fun second :: "DateValue \<Rightarrow> int" where
  "second (CalendarDate y m d) = 0"
| "second (CalendarDateTime y m d h mi s ms) = s"
| "second (ZonedDateTime y m d h mi s ms) = s"

fun millisecond :: "DateValue \<Rightarrow> int" where
  "millisecond (CalendarDate y m d) = 0"
| "millisecond (CalendarDateTime y m d h mi s ms) = ms"
| "millisecond (ZonedDateTime y m d h mi s ms) = ms"

fun with_date :: "DateValue \<Rightarrow> int \<Rightarrow> int \<Rightarrow> int \<Rightarrow> DateValue" where
  "with_date (CalendarDate _ _ _) y m d = CalendarDate y m d"
| "with_date (CalendarDateTime _ _ _ h mi s ms) y m d = CalendarDateTime y m d h mi s ms"
| "with_date (ZonedDateTime _ _ _ h mi s ms) y m d = ZonedDateTime y m d h mi s ms"

fun with_time :: "DateValue \<Rightarrow> int \<Rightarrow> int \<Rightarrow> int \<Rightarrow> int \<Rightarrow> DateValue" where
  "with_time (CalendarDate y m d) _ _ _ _ = CalendarDate y m d"
| "with_time (CalendarDateTime y m d _ _ _ _) h mi s ms = CalendarDateTime y m d h mi s ms"
| "with_time (ZonedDateTime y m d _ _ _ _) h mi s ms = ZonedDateTime y m d h mi s ms"

fun toCalendarDate :: "DateValue \<Rightarrow> DateValue" where
  "toCalendarDate dv = CalendarDate (year dv) (month dv) (day dv)"

fun toCalendarDateTime :: "DateValue \<Rightarrow> DateValue" where
  "toCalendarDateTime dv =
     CalendarDateTime (year dv) (month dv) (day dv) (hour dv) (minute dv) (second dv)
       (millisecond dv)"

fun isCalendarDate :: "DateValue \<Rightarrow> bool" where
  "isCalendarDate (CalendarDate y m d) = True"
| "isCalendarDate _ = False"

text \<open>\<^verbatim>\<open>isLeapYear\<close> of \<^verbatim>\<open>date.ts\<close>, on the year number.\<close>

definition isLeapYear :: "int \<Rightarrow> bool" where
  "isLeapYear y = ((y mod 4 = 0 \<and> y mod 100 \<noteq> 0) \<or> y mod 400 = 0)"

definition days_in_month :: "int \<Rightarrow> int \<Rightarrow> int" where
  "days_in_month y m =
     (if m = 2 then (if isLeapYear y then 29 else 28)
      else if m = 4 \<or> m = 6 \<or> m = 9 \<or> m = 11 then 30 else 31)"

definition getDaysInMonth :: "DateValue \<Rightarrow> int" where
  "getDaysInMonth dv = days_in_month (year dv) (month dv)"

definition getMonthsInYear :: "DateValue \<Rightarrow> int" where
  "getMonthsInYear dv = 12"

text \<open>The Julian day number of a Gregorian date, and the date of a Julian day number.\<close>

definition gregorianToJulianDay :: "int \<Rightarrow> int \<Rightarrow> int \<Rightarrow> int" where
  "gregorianToJulianDay y m d =
     (let y1 = y - 1;
          monthOffset = (if m \<le> 2 then 0 else if isLeapYear y then -1 else -2)
      in 1721426 - 1 + 365 * y1 + y1 div 4 - y1 div 100 + y1 div 400
         + ((367 * m - 362) div 12 + monthOffset + d))"

definition toJulianDay :: "DateValue \<Rightarrow> int" where
  "toJulianDay dv = gregorianToJulianDay (year dv) (month dv) (day dv)"

definition fromJulianDay :: "int \<Rightarrow> int \<times> int \<times> int" where
  "fromJulianDay jd =
     (let depoch = jd - 1721426;
          quadricent = depoch div 146097;
          dqc = depoch mod 146097;
          cent = dqc div 36524;
          dcent = dqc mod 36524;
          quad = dcent div 1461;
          dquad = dcent mod 1461;
          yindex = dquad div 365;
          y = quadricent * 400 + cent * 100 + quad * 4 + yindex
              + (if cent \<noteq> 4 \<and> yindex \<noteq> 4 then 1 else 0);
          yearDay = jd - gregorianToJulianDay y 1 1;
          leapAdj = (if jd < gregorianToJulianDay y 3 1 then 0
                     else if isLeapYear y then 1 else 2);
          m = ((yearDay + leapAdj) * 12 + 373) div 367;
          d = jd - gregorianToJulianDay y m 1 + 1
      in (y, m, d))"

record Duration =
  years :: int
  months :: int
  weeks :: int
  days :: int
  hours :: int
  minutes :: int
  seconds :: int
  milliseconds :: int

definition no_duration :: Duration where
  "no_duration = \<lparr> years = 0, months = 0, weeks = 0, days = 0, hours = 0, minutes = 0,
                    seconds = 0, milliseconds = 0 \<rparr>"

text \<open>
  Adding the time fields of a duration: the balanced time of day and the number of days
  carried over.  A PlainDate has no time fields and carries nothing.
\<close>

definition add_time_fields :: "DateValue \<Rightarrow> Duration \<Rightarrow> (int \<times> int \<times> int \<times> int) \<times> int" where
  "add_time_fields dv du =
     (let ms0 = millisecond dv + milliseconds du;
          s0 = second dv + seconds du + ms0 div 1000;
          mi0 = minute dv + minutes du + s0 div 60;
          h0 = hour dv + hours du + mi0 div 60
      in ((h0 mod 24, mi0 mod 60, s0 mod 60, ms0 mod 1000), h0 div 24))"

definition add :: "DateValue \<Rightarrow> Duration \<Rightarrow> DateValue" where
  "add dv du =
     (let (tm, carry) = (if has_time dv then add_time_fields dv du
                         else ((0, 0, 0, 0), 0));
          y1 = year dv + years du;
          m1 = month dv + months du;
          y2 = y1 + (m1 - 1) div 12;
          m2 = (m1 - 1) mod 12 + 1;
          d2 = max 1 (min (days_in_month y2 m2) (day dv));
          n = weeks du * 7 + days du + carry;
          (y3, m3, d3) = (if n = 0 then (y2, m2, d2)
                          else fromJulianDay (gregorianToJulianDay y2 m2 d2 + n));
          (h, mi, s, ms) = tm
      in with_time (with_date dv y3 m3 d3) h mi s ms)"

definition negate_duration :: "Duration \<Rightarrow> Duration" where
  "negate_duration du =
     \<lparr> years = - years du, months = - months du, weeks = - weeks du, days = - days du,
       hours = - hours du, minutes = - minutes du, seconds = - seconds du,
       milliseconds = - milliseconds du \<rparr>"

definition subtract :: "DateValue \<Rightarrow> Duration \<Rightarrow> DateValue" where
  "subtract dv du = add dv (negate_duration du)"

record DateTimeFields =
  f_year :: "int option"
  f_month :: "int option"
  f_day :: "int option"
  f_hour :: "int option"
  f_minute :: "int option"
  f_second :: "int option"
  f_millisecond :: "int option"

definition no_fields :: DateTimeFields where
  "no_fields = \<lparr> f_year = None, f_month = None, f_day = None, f_hour = None,
                  f_minute = None, f_second = None, f_millisecond = None \<rparr>"

definition clamp :: "int \<Rightarrow> int \<Rightarrow> int \<Rightarrow> int" where
  "clamp lo hi v = max lo (min hi v)"

definition set_fields :: "DateValue \<Rightarrow> DateTimeFields \<Rightarrow> DateValue" where
  "set_fields dv fs =
     (let y = (case f_year fs of Some v \<Rightarrow> v | None \<Rightarrow> year dv);
          m = clamp 1 12 (case f_month fs of Some v \<Rightarrow> v | None \<Rightarrow> month dv);
          d = clamp 1 (days_in_month y m) (case f_day fs of Some v \<Rightarrow> v | None \<Rightarrow> day dv);
          h = clamp 0 23 (case f_hour fs of Some v \<Rightarrow> v | None \<Rightarrow> hour dv);
          mi = clamp 0 59 (case f_minute fs of Some v \<Rightarrow> v | None \<Rightarrow> minute dv);
          s = clamp 0 59 (case f_second fs of Some v \<Rightarrow> v | None \<Rightarrow> second dv);
          ms = clamp 0 999 (case f_millisecond fs of Some v \<Rightarrow> v | None \<Rightarrow> millisecond dv)
      in with_time (with_date dv y m d) h mi s ms)"

definition time_to_ms :: "DateValue \<Rightarrow> int" where
  "time_to_ms dv = hour dv * 3600000 + minute dv * 60000 + second dv * 1000 + millisecond dv"

text \<open>Milliseconds since the Unix epoch of the moment read in UTC (\<^verbatim>\<open>toDate('UTC').getTime()\<close>).\<close>

definition epoch_ms :: "DateValue \<Rightarrow> int" where
  "epoch_ms dv = (toJulianDay dv - 2440588) * 86400000 + time_to_ms dv"

fun compare :: "DateValue \<Rightarrow> DateValue \<Rightarrow> int" where
  "compare (CalendarDate y m d) b = toJulianDay (CalendarDate y m d) - toJulianDay b"
| "compare (CalendarDateTime y m d h mi s ms) b =
     (let res = toJulianDay (CalendarDateTime y m d h mi s ms) - toJulianDay b
      in if res = 0 then time_to_ms (CalendarDateTime y m d h mi s ms) - time_to_ms b
         else res)"
| "compare (ZonedDateTime y m d h mi s ms) b =
     epoch_ms (ZonedDateTime y m d h mi s ms) - epoch_ms b"

section \<open>Calendar helpers of \<^verbatim>\<open>date.ts\<close>\<close>

definition WEEKDAYS :: "Weekday list" where
  "WEEKDAYS = [MO, TU, WE, TH, FR, SA, SU]"

definition getDayOfWeek :: "DateValue \<Rightarrow> int" where
  "getDayOfWeek dv = toJulianDay dv mod 7"

definition getWeekday :: "DateValue \<Rightarrow> Weekday" where
  "getWeekday dv = WEEKDAYS ! nat (getDayOfWeek dv)"

fun getWeekdayIndex :: "Weekday \<Rightarrow> int" where
  "getWeekdayIndex MO = 0"
| "getWeekdayIndex TU = 1"
| "getWeekdayIndex WE = 2"
| "getWeekdayIndex TH = 3"
| "getWeekdayIndex FR = 4"
| "getWeekdayIndex SA = 5"
| "getWeekdayIndex SU = 6"

definition calculateDifference :: "DateValue \<Rightarrow> DateValue \<Rightarrow> int" where
  "calculateDifference start end = epoch_ms end - epoch_ms start"

definition calculateDifferenceInDays :: "DateValue \<Rightarrow> DateValue \<Rightarrow> int" where
  "calculateDifferenceInDays start end = calculateDifference start end div 86400000"

definition addDuration :: "DateValue \<Rightarrow> Duration \<Rightarrow> DateValue" where
  "addDuration dv du = add dv du"

definition subtractDuration :: "DateValue \<Rightarrow> Duration \<Rightarrow> DateValue" where
  "subtractDuration dv du = subtract dv du"

definition getStartOfDay :: "DateValue \<Rightarrow> DateValue" where
  "getStartOfDay dv0 =
     (let dv = (if isCalendarDate dv0 then toCalendarDateTime dv0 else dv0)
      in subtract dv (no_duration \<lparr> hours := hour dv, minutes := minute dv,
                                    seconds := second dv, milliseconds := millisecond dv \<rparr>))"

definition getEndOfDay :: "DateValue \<Rightarrow> DateValue" where
  "getEndOfDay dv =
     add (getStartOfDay dv)
       (no_duration \<lparr> hours := 23, minutes := 59, seconds := 59, milliseconds := 999 \<rparr>)"

definition getStartOfWeek :: "DateValue \<Rightarrow> Weekday option \<Rightarrow> DateValue" where
  "getStartOfWeek dv wkst =
     (let currentIndex = getWeekdayIndex (getWeekday dv);
          wkstIndex = getWeekdayIndex (case wkst of None \<Rightarrow> MO | Some w \<Rightarrow> w);
          daysBack = (currentIndex - wkstIndex + 7) mod 7
      in subtract dv (no_duration \<lparr> days := daysBack \<rparr>))"

definition getStartOfMonth :: "DateValue \<Rightarrow> DateValue" where
  "getStartOfMonth dv = subtract (getStartOfDay dv) (no_duration \<lparr> days := day dv - 1 \<rparr>)"

definition getEndOfMonth :: "DateValue \<Rightarrow> DateValue" where
  "getEndOfMonth dv = add (getEndOfDay dv) (no_duration \<lparr> days := getDaysInMonth dv - day dv \<rparr>)"

definition getStartOfYear :: "DateValue \<Rightarrow> DateValue" where
  "getStartOfYear dv = subtract (getStartOfMonth dv) (no_duration \<lparr> months := month dv - 1 \<rparr>)"

definition getEndOfYear :: "DateValue \<Rightarrow> DateValue" where
  "getEndOfYear dv =
     add (getEndOfMonth dv) (no_duration \<lparr> months := getMonthsInYear dv - month dv \<rparr>)"

definition getWeeksInYear :: "DateValue \<Rightarrow> Weekday option \<Rightarrow> int" where
  "getWeeksInYear dv wkst =
     (let startOfYear = getStartOfYear dv;
          firstWeekday = getDayOfWeek startOfYear;
          wkstIndex = getWeekdayIndex (case wkst of None \<Rightarrow> MO | Some w \<Rightarrow> w)
      in if firstWeekday = wkstIndex then 53
         else if isLeapYear (year startOfYear) \<and> firstWeekday = (wkstIndex - 1 + 7) mod 7
         then 53
         else 52)"

definition compareDates :: "DateValue \<Rightarrow> DateValue \<Rightarrow> int" where
  "compareDates a b =
     (let comparison = compare a b
      in if comparison = 0 then 0 else if comparison > 0 then 1 else -1)"

definition setFields :: "DateValue \<Rightarrow> DateTimeFields \<Rightarrow> DateValue" where
  "setFields dv fs = set_fields dv fs"

section \<open>Rule options and the sanitizer\<close>

text \<open>
  \<^verbatim>\<open>RRuleOptions\<close> (what a caller passes, fields prefixed \<open>in_\<close>) and
  \<^verbatim>\<open>ParsedRRuleOptions\<close> (what the sanitizer returns) of \<^verbatim>\<open>types.ts\<close>.  An absent field
  (\<^verbatim>\<open>undefined\<close>) is \<open>None\<close>.  Numbers are integers here; the source's
  \<^verbatim>\<open>Math.trunc\<close> is the identity on them.
\<close>

record RRuleOptions =
  in_freq :: "Frequency option"
  in_dtstart :: "DateValue option"
  in_interval :: "int option"
  in_count :: "int option"
  in_until :: "DateValue option"
  in_wkst :: "string option"
  in_bysetpos :: "int list option"
  in_bymonth :: "int list option"
  in_bymonthday :: "int list option"
  in_byyearday :: "int list option"
  in_byweekday :: "WeekdayInput list option"
  in_byweekno :: "int list option"
  in_byhour :: "int list option"
  in_byminute :: "int list option"
  in_bysecond :: "int list option"

record ParsedRRuleOptions =
  freq :: Frequency
  dtstart :: "DateValue option"
  interval :: "int option"
  count :: "int option"
  until :: "DateValue option"
  wkst :: "Weekday option"
  bysetpos :: "int list option"
  bymonth :: "int list option"
  bymonthday :: "int list option"
  byyearday :: "int list option"
  byweekday :: "WeekdayValue list option"
  byweekno :: "int list option"
  byhour :: "int list option"
  byminute :: "int list option"
  bysecond :: "int list option"

text \<open>\<^verbatim>\<open>unique\<close> of \<^verbatim>\<open>utils.ts\<close>: \<^verbatim>\<open>[...new Set(value)]\<close> keeps first occurrences in order.\<close>

fun unique :: "'a list \<Rightarrow> 'a list" where
  "unique [] = []"
| "unique (x # xs) = x # unique (filter (\<lambda>y. y \<noteq> x) xs)"

text \<open>
  \<^verbatim>\<open>uniqueWeekdayValues\<close>: an element stays when the first element equal to it is
  itself.  Two strings are compared as strings, two records field by field, a string and a
  record never match; on \<open>WeekdayValue\<close> this is equality.
\<close>

fun findIndex :: "('a \<Rightarrow> bool) \<Rightarrow> 'a list \<Rightarrow> nat option" where
  "findIndex p [] = None"
| "findIndex p (x # xs) = (if p x then Some 0 else map_option Suc (findIndex p xs))"

fun weekdayValueEq :: "WeekdayValue \<Rightarrow> WeekdayValue \<Rightarrow> bool" where
  "weekdayValueEq (Simple a) (Simple b) = (a = b)"
| "weekdayValueEq (Nth a n) (Nth b k) = (a = b \<and> n = k)"
| "weekdayValueEq _ _ = False"

definition uniqueWeekdayValues :: "WeekdayValue list \<Rightarrow> WeekdayValue list" where
  "uniqueWeekdayValues values =
     map snd (filter (\<lambda>(index, value). findIndex (weekdayValueEq value) values = Some index)
                (enumerate 0 values))"

definition sanitizeFrequency :: "Frequency option \<Rightarrow> Frequency" where
  "sanitizeFrequency value = (case value of None \<Rightarrow> YEARLY | Some f \<Rightarrow> f)"

definition sanitizeNumber :: "int option \<Rightarrow> int option \<Rightarrow> int option \<Rightarrow> bool \<Rightarrow> int option" where
  "sanitizeNumber value min_v max_v allowZero =
     (case value of
        None \<Rightarrow> None
      | Some v \<Rightarrow>
          if \<not> allowZero \<and> v = 0 then None
          else let v1 = (case max_v of Some mx \<Rightarrow> if v > mx then mx else v | None \<Rightarrow> v);
                   v2 = (case min_v of Some mn \<Rightarrow> if v1 < mn then mn else v1 | None \<Rightarrow> v1)
               in Some v2)"

definition sanitizeNumberArray ::
  "int list option \<Rightarrow> int \<Rightarrow> int \<Rightarrow> bool \<Rightarrow> int list option" where
  "sanitizeNumberArray values min_v max_v allowZero =
     (case values of
        None \<Rightarrow> None
      | Some vs \<Rightarrow>
          Some (unique (filter (\<lambda>value. \<not> (\<not> allowZero \<and> value = 0) \<and> \<not> value > max_v
                                         \<and> \<not> value < min_v) vs)))"

definition sanitizeUntilDate :: "DateValue option \<Rightarrow> DateValue option \<Rightarrow> error + DateValue option" where
  "sanitizeUntilDate value start =
     (case start of
        None \<Rightarrow> Inr value
      | Some s \<Rightarrow>
          (case value of
             None \<Rightarrow> Inr None
           | Some u \<Rightarrow> if compare u s < 0 then Inl UntilBeforeDtstart else Inr (Some u)))"

definition sanitizeWeekday :: "string option \<Rightarrow> Weekday option" where
  "sanitizeWeekday value =
     (case value of
        None \<Rightarrow> None
      | Some s \<Rightarrow>
          if isWeekday s then weekday_of_string s
          else (case parseWeekday s of Inl _ \<Rightarrow> None | Inr w \<Rightarrow> Some w))"

definition sanitizeWeekdayValueArray :: "WeekdayInput list option \<Rightarrow> WeekdayValue list option" where
  "sanitizeWeekdayValueArray values =
     (case values of
        None \<Rightarrow> None
      | Some vs \<Rightarrow> Some (uniqueWeekdayValues (List.map_filter sanitizeWeekdayValue vs)))"

definition nonEmpty :: "'a list option \<Rightarrow> bool" where
  "nonEmpty xs = (case xs of None \<Rightarrow> False | Some l \<Rightarrow> length l > 0)"

definition validateBySetPos :: "ParsedRRuleOptions \<Rightarrow> bool" where
  "validateBySetPos parsed =
     (if bysetpos parsed = None \<or> bysetpos parsed = Some [] then True
      else (nonEmpty (bymonth parsed) \<or> nonEmpty (bymonthday parsed)
            \<or> nonEmpty (byyearday parsed) \<or> nonEmpty (byweekday parsed)
            \<or> nonEmpty (byweekno parsed) \<or> nonEmpty (byhour parsed)
            \<or> nonEmpty (byminute parsed) \<or> nonEmpty (bysecond parsed)))"

definition sanitizeRRuleOptions :: "RRuleOptions \<Rightarrow> error + ParsedRRuleOptions" where
  "sanitizeRRuleOptions options =
     (case sanitizeUntilDate (in_until options) (in_dtstart options) of
        Inl e \<Rightarrow> Inl e
      | Inr u \<Rightarrow>
          (let parsed = \<lparr>
                 freq = sanitizeFrequency (in_freq options),
                 dtstart = in_dtstart options,
                 interval = sanitizeNumber (in_interval options) (Some 1) None False,
                 count = sanitizeNumber (in_count options) (Some 1) None False,
                 until = u,
                 wkst = sanitizeWeekday (in_wkst options),
                 bysetpos = sanitizeNumberArray (in_bysetpos options) (-366) 366 False,
                 bymonth = sanitizeNumberArray (in_bymonth options) 1 12 False,
                 bymonthday = sanitizeNumberArray (in_bymonthday options) (-31) 31 False,
                 byyearday = sanitizeNumberArray (in_byyearday options) (-366) 366 False,
                 byweekday = sanitizeWeekdayValueArray (in_byweekday options),
                 byweekno = sanitizeNumberArray (in_byweekno options) (-53) 53 False,
                 byhour = sanitizeNumberArray (in_byhour options) 0 23 True,
                 byminute = sanitizeNumberArray (in_byminute options) 0 59 True,
                 bysecond = sanitizeNumberArray (in_bysecond options) 0 59 True \<rparr>
           in if count parsed \<noteq> None \<and> until parsed \<noteq> None then Inl CountUntilExclusive
              else if \<not> validateBySetPos parsed then Inl BySetPosAlone
              else Inr parsed))"

text \<open>An options record with every field absent, to build examples from.\<close>

definition no_options :: RRuleOptions where
  "no_options = \<lparr> in_freq = None, in_dtstart = None, in_interval = None, in_count = None,
                   in_until = None, in_wkst = None, in_bysetpos = None, in_bymonth = None,
                   in_bymonthday = None, in_byyearday = None, in_byweekday = None,
                   in_byweekno = None, in_byhour = None, in_byminute = None,
                   in_bysecond = None \<rparr>"




definition until_before_dtstart :: "RRuleOptions \<Rightarrow> bool" where
  "until_before_dtstart options =
     (case (in_until options, in_dtstart options) of
        (Some u, Some s) \<Rightarrow> compare u s < 0
      | _ \<Rightarrow> False)"


definition in_range :: "int list option \<Rightarrow> int \<Rightarrow> int \<Rightarrow> bool \<Rightarrow> bool" where
  "in_range values lo hi allowZero =
     (case values of
        None \<Rightarrow> True
      | Some vs \<Rightarrow> list_all (\<lambda>v. lo \<le> v \<and> v \<le> hi \<and> (allowZero \<or> v \<noteq> 0)) vs \<and> distinct vs)"





text \<open>The record the sanitizer builds before its two cross-field checks.\<close>

definition parsed_of :: "RRuleOptions \<Rightarrow> ParsedRRuleOptions" where
  "parsed_of options = \<lparr>
     freq = sanitizeFrequency (in_freq options),
     dtstart = in_dtstart options,
     interval = sanitizeNumber (in_interval options) (Some 1) None False,
     count = sanitizeNumber (in_count options) (Some 1) None False,
     until = in_until options,
     wkst = sanitizeWeekday (in_wkst options),
     bysetpos = sanitizeNumberArray (in_bysetpos options) (-366) 366 False,
     bymonth = sanitizeNumberArray (in_bymonth options) 1 12 False,
     bymonthday = sanitizeNumberArray (in_bymonthday options) (-31) 31 False,
     byyearday = sanitizeNumberArray (in_byyearday options) (-366) 366 False,
     byweekday = sanitizeWeekdayValueArray (in_byweekday options),
     byweekno = sanitizeNumberArray (in_byweekno options) (-53) 53 False,
     byhour = sanitizeNumberArray (in_byhour options) 0 23 True,
     byminute = sanitizeNumberArray (in_byminute options) 0 59 True,
     bysecond = sanitizeNumberArray (in_bysecond options) 0 59 True \<rparr>"

section \<open>The occurrence generator\<close>

text \<open>
  \<^verbatim>\<open>generator.ts\<close>.  A destructuring default \<^verbatim>\<open>{ bymonth = [] }\<close> is \<open>or_empty\<close>.
  \<^verbatim>\<open>Array.prototype.sort\<close> with the comparator \<^verbatim>\<open>compareDates\<close> is a stable sort;
  \<open>sort_dates\<close> is the stable insertion sort under that comparator.
\<close>

definition or_empty :: "'a list option \<Rightarrow> 'a list" where
  "or_empty xs = (case xs of None \<Rightarrow> [] | Some l \<Rightarrow> l)"

fun insert_date :: "DateValue \<Rightarrow> DateValue list \<Rightarrow> DateValue list" where
  "insert_date x [] = [x]"
| "insert_date x (y # ys) = (if compareDates x y \<le> 0 then x # y # ys else y # insert_date x ys)"

definition sort_dates :: "DateValue list \<Rightarrow> DateValue list" where
  "sort_dates xs = foldr insert_date xs []"

fun is_simple :: "WeekdayValue \<Rightarrow> bool" where
  "is_simple (Simple w) = True"
| "is_simple (Nth w n) = False"

fun weekday_of :: "WeekdayValue \<Rightarrow> Weekday" where
  "weekday_of (Simple w) = w"
| "weekday_of (Nth w n) = w"

definition normalize_monthday :: "int \<Rightarrow> int \<Rightarrow> int" where
  "normalize_monthday daysInMonth d = (if d > 0 then d else daysInMonth + d + 1)"

definition expandDaily :: "DateValue \<Rightarrow> ParsedRRuleOptions \<Rightarrow> DateValue list" where
  "expandDaily cursor options =
     (let bymonth' = or_empty (bymonth options);
          bymonthday' = or_empty (bymonthday options);
          byweekday' = or_empty (byweekday options)
      in if bymonth' \<noteq> [] \<and> month cursor \<notin> set bymonth' then []
         else if bymonthday' \<noteq> []
                 \<and> day cursor \<notin> set (map (normalize_monthday (getDaysInMonth cursor)) bymonthday')
         then []
         else if byweekday' \<noteq> []
                 \<and> (let simpleWeekdays = filter is_simple byweekday'
                     in simpleWeekdays \<noteq> [] \<and> Simple (getWeekday cursor) \<notin> set simpleWeekdays)
         then []
         else [cursor])"

text \<open>\<^verbatim>\<open>days.indexOf(day) === index\<close>: keep the first occurrence of each weekday.\<close>

definition firstOccurrences :: "'a list \<Rightarrow> 'a list" where
  "firstOccurrences ds =
     map snd (filter (\<lambda>(index, d). findIndex (\<lambda>x. x = d) ds = Some index) (enumerate 0 ds))"

definition expandWeekly :: "DateValue \<Rightarrow> ParsedRRuleOptions \<Rightarrow> DateValue list" where
  "expandWeekly cursor options =
     (let byweekday' = or_empty (byweekday options);
          bymonth' = or_empty (bymonth options);
          bymonthday' = or_empty (bymonthday options);
          startOfWeek = getStartOfWeek cursor (wkst options);
          targetWeekdays = (if byweekday' \<noteq> [] then firstOccurrences (map weekday_of byweekday')
                            else [getWeekday cursor]);
          results =
            concat (map (\<lambda>i.
              let date = addDuration startOfWeek (no_duration \<lparr> days := i \<rparr>)
              in if getWeekday date \<in> set targetWeekdays
                 then (if bymonth' \<noteq> [] \<and> month date \<notin> set bymonth' then []
                       else if bymonthday' \<noteq> []
                               \<and> day date \<notin> set (map (normalize_monthday (getDaysInMonth date))
                                                      bymonthday')
                       then []
                       else [date])
                 else []) [0, 1, 2, 3, 4, 5, 6])
      in sort_dates results)"

definition expandByWeekdayInMonth :: "DateValue \<Rightarrow> WeekdayValue list \<Rightarrow> DateValue list" where
  "expandByWeekdayInMonth cursor byweekday' =
     (let daysInMonth = getDaysInMonth cursor;
          monthDates = map (\<lambda>d. setFields cursor (no_fields \<lparr> f_day := Some d \<rparr>))
                         [1 .. daysInMonth];
          bucket = (\<lambda>w. filter (\<lambda>date. getWeekday date = w) monthDates)
      in concat (map (\<lambda>term.
           case term of
             Simple w \<Rightarrow> bucket w
           | Nth w n \<Rightarrow>
               (let dates = bucket w
                in if length dates > 0
                   then (let idx = (if n > 0 then n - 1 else int (length dates) + n)
                         in if idx \<ge> 0 \<and> idx < int (length dates) then [dates ! nat idx] else [])
                   else [])) byweekday'))"

definition expandMonthly :: "DateValue \<Rightarrow> ParsedRRuleOptions \<Rightarrow> DateValue list" where
  "expandMonthly cursor options =
     (let bymonth' = or_empty (bymonth options);
          bymonthday' = or_empty (bymonthday options);
          byweekday' = or_empty (byweekday options)
      in if bymonth' \<noteq> [] \<and> month cursor \<notin> set bymonth' then []
         else if byweekday' = [] \<and> bymonthday' = [] then [cursor]
         else
           (let daysInMonth = getDaysInMonth cursor;
                byMonthDayHits =
                  unique (filter (\<lambda>normalized. normalized \<ge> 1 \<and> normalized \<le> daysInMonth)
                            (map (normalize_monthday daysInMonth) bymonthday'))
            in if length byMonthDayHits > 0 \<and> byweekday' = []
               then sort_dates (map (\<lambda>d. setFields cursor (no_fields \<lparr> f_day := Some d \<rparr>))
                                  byMonthDayHits)
               else sort_dates
                      (if byweekday' \<noteq> []
                       then (let byDayHits = expandByWeekdayInMonth cursor byweekday'
                             in if length byMonthDayHits > 0
                                then filter (\<lambda>date. day date \<in> set byMonthDayHits) byDayHits
                                else byDayHits)
                       else [])))"

text \<open>
  The three year-level expanders end with the same three steps: copy the cursor's time of
  day when both values have one, go back to a PlainDate when the cursor is one, keep the
  date when it lies in the cursor's year.
\<close>

definition keep_in_cursor_year :: "DateValue \<Rightarrow> DateValue \<Rightarrow> DateValue list" where
  "keep_in_cursor_year cursor date0 =
     (let date1 = (if has_time cursor \<and> has_time date0
                   then setFields date0
                          (no_fields \<lparr> f_hour := Some (hour cursor),
                                       f_minute := Some (minute cursor),
                                       f_second := Some (second cursor),
                                       f_millisecond := Some (millisecond cursor) \<rparr>)
                   else date0);
          date2 = (if isCalendarDate cursor \<and> has_time date1 then toCalendarDate date1
                   else date1)
      in if year date2 = year cursor then [date2] else [])"

definition expandByYearDay :: "DateValue \<Rightarrow> int list \<Rightarrow> DateValue list" where
  "expandByYearDay cursor byyearday' =
     (let startOfYear = getStartOfYear cursor;
          endOfYear = getEndOfYear cursor;
          daysInYear = calculateDifferenceInDays startOfYear endOfYear + 1
      in sort_dates (concat (map (\<lambda>yearDay.
           let dayNum = (if yearDay > 0 then yearDay else daysInYear + yearDay + 1)
           in if dayNum \<le> 0 \<or> dayNum > daysInYear then []
              else keep_in_cursor_year cursor
                     (addDuration startOfYear (no_duration \<lparr> days := dayNum - 1 \<rparr>)))
           byyearday')))"

definition expandOrdinalByDayInYear :: "DateValue \<Rightarrow> WeekdayValue list \<Rightarrow> DateValue list" where
  "expandOrdinalByDayInYear cursor byweekday' =
     concat (map (\<lambda>term.
       case term of
         Simple w \<Rightarrow> []
       | Nth weekday n \<Rightarrow>
           (let weekdayNum = getWeekdayIndex weekday;
                date =
                  (if n > 0
                   then (let startOfYear = getStartOfYear cursor;
                             firstWeekdayIndex = getWeekdayIndex (getWeekday startOfYear);
                             delta = (weekdayNum - firstWeekdayIndex + 7) mod 7
                         in addDuration startOfYear
                              (no_duration \<lparr> days := delta + 7 * (n - 1) \<rparr>))
                   else (let endOfYear = getEndOfYear cursor;
                             lastWeekdayIndex = getWeekdayIndex (getWeekday endOfYear);
                             delta = (lastWeekdayIndex - weekdayNum + 7) mod 7
                         in subtractDuration endOfYear
                              (no_duration \<lparr> days := delta + 7 * (- n - 1) \<rparr>)))
            in keep_in_cursor_year cursor date)) byweekday')"

definition expandByWeekNo ::
  "DateValue \<Rightarrow> int list \<Rightarrow> WeekdayValue list \<Rightarrow> Weekday option \<Rightarrow> DateValue list" where
  "expandByWeekNo cursor byweekno' byweekday' wkst' =
     (let weeksInYear = getWeeksInYear cursor wkst';
          targetWeekdays = (if length byweekday' > 0 then map weekday_of byweekday'
                            else [MO, TU, WE, TH, FR, SA, SU])
      in concat (map (\<lambda>weekNo.
           let normalizedWeekNo = (if weekNo > 0 then weekNo else weeksInYear + weekNo + 1)
           in if normalizedWeekNo \<le> 0 \<or> normalizedWeekNo > weeksInYear then []
              else (let startOfYear = getStartOfYear cursor;
                        jan4 = setFields startOfYear
                                 (no_fields \<lparr> f_month := Some 1, f_day := Some 4 \<rparr>);
                        week1Monday = getStartOfWeek jan4 wkst';
                        weekStartDate = addDuration week1Monday
                                          (no_duration \<lparr> weeks := normalizedWeekNo - 1 \<rparr>)
                    in concat (map (\<lambda>i.
                         let date = addDuration weekStartDate (no_duration \<lparr> days := i \<rparr>)
                         in if getWeekday date \<in> set targetWeekdays \<and> year date = year cursor
                            then keep_in_cursor_year cursor date
                            else []) [0, 1, 2, 3, 4, 5, 6]))) byweekno'))"

definition expandYearly :: "DateValue \<Rightarrow> ParsedRRuleOptions \<Rightarrow> DateValue list" where
  "expandYearly cursor options =
     (let bymonth' = or_empty (bymonth options);
          bymonthday' = or_empty (bymonthday options);
          byweekday' = or_empty (byweekday options);
          byyearday' = or_empty (byyearday options);
          byweekno' = or_empty (byweekno options);
          hasOrdinalByDay = list_ex (\<lambda>d. \<not> is_simple d) byweekday'
      in if hasOrdinalByDay \<and> bymonth' = []
         then sort_dates (expandOrdinalByDayInYear cursor byweekday')
         else
           (let results1 =
                  (if byyearday' \<noteq> []
                   then (let yearDayResults = expandByYearDay cursor byyearday'
                         in if bymonth' \<noteq> []
                            then filter (\<lambda>date. month date \<in> set bymonth') yearDayResults
                            else yearDayResults)
                   else []);
                results2 =
                  results1 @ (if byweekno' \<noteq> []
                              then expandByWeekNo cursor byweekno' byweekday' (wkst options)
                              else []);
                results3 =
                  results2 @
                  (if byyearday' = [] \<and> byweekno' = []
                   then (let targetMonths =
                               (if bymonth' \<noteq> [] then bymonth'
                                else if bymonthday' \<noteq> [] \<or> byweekday' \<noteq> []
                                then [1, 2, 3, 4, 5, 6, 7, 8, 9, 10, 11, 12]
                                else [month cursor])
                         in concat (map (\<lambda>m.
                              if byweekday' \<noteq> [] \<or> bymonthday' \<noteq> []
                              then expandMonthly
                                     (setFields cursor
                                        (no_fields \<lparr> f_month := Some m, f_day := Some 1 \<rparr>))
                                     options
                              else [setFields cursor (no_fields \<lparr> f_month := Some m \<rparr>)])
                              targetMonths))
                   else [])
            in sort_dates results3))"

definition expandHourly :: "DateValue \<Rightarrow> ParsedRRuleOptions \<Rightarrow> DateValue list" where
  "expandHourly cursor options =
     (let bymonth' = or_empty (bymonth options);
          bymonthday' = or_empty (bymonthday options);
          byweekday' = or_empty (byweekday options)
      in if bymonth' \<noteq> [] \<and> month cursor \<notin> set bymonth' then []
         else if bymonthday' \<noteq> []
                 \<and> day cursor \<notin> set (map (normalize_monthday (getDaysInMonth cursor)) bymonthday')
         then []
         else if byweekday' \<noteq> []
                 \<and> (let simpleWeekdays = filter is_simple byweekday'
                     in simpleWeekdays \<noteq> [] \<and> Simple (getWeekday cursor) \<notin> set simpleWeekdays)
         then []
         else [cursor])"

definition expandMinutely :: "DateValue \<Rightarrow> ParsedRRuleOptions \<Rightarrow> DateValue list" where
  "expandMinutely cursor options = expandHourly cursor options"

definition expandSecondly :: "DateValue \<Rightarrow> ParsedRRuleOptions \<Rightarrow> DateValue list" where
  "expandSecondly cursor options = expandHourly cursor options"

definition expandByTime :: "DateValue \<Rightarrow> ParsedRRuleOptions \<Rightarrow> DateValue list" where
  "expandByTime date options =
     (let byhour' = or_empty (byhour options);
          byminute' = or_empty (byminute options);
          bysecond' = or_empty (bysecond options)
      in if byhour' = [] \<and> byminute' = [] \<and> bysecond' = [] then [date]
         else if \<not> has_time date then [date]
         else (let hours' = (if byhour' \<noteq> [] then byhour' else [hour date]);
                   minutes' = (if byminute' \<noteq> [] then byminute' else [minute date]);
                   seconds' = (if bysecond' \<noteq> [] then bysecond' else [second date])
               in concat (map (\<lambda>h. concat (map (\<lambda>mi. map (\<lambda>s.
                    setFields date (no_fields \<lparr> f_hour := Some h, f_minute := Some mi,
                                                f_second := Some s \<rparr>)) seconds') minutes'))
                    hours')))"

definition applyBySetPos :: "DateValue list \<Rightarrow> ParsedRRuleOptions \<Rightarrow> DateValue list" where
  "applyBySetPos dates options =
     (let bysetpos' = or_empty (bysetpos options)
      in if bysetpos' = [] then dates
         else (let sorted = sort_dates dates
               in sort_dates (concat (map (\<lambda>position.
                    let index = (if position > 0 then position - 1
                                 else int (length sorted) + position)
                    in if index \<ge> 0 \<and> index < int (length sorted) then [sorted ! nat index]
                       else []) bysetpos'))))"

fun getFrequencyExpander :: "Frequency \<Rightarrow> DateValue \<Rightarrow> ParsedRRuleOptions \<Rightarrow> DateValue list" where
  "getFrequencyExpander YEARLY = expandYearly"
| "getFrequencyExpander MONTHLY = expandMonthly"
| "getFrequencyExpander WEEKLY = expandWeekly"
| "getFrequencyExpander DAILY = expandDaily"
| "getFrequencyExpander HOURLY = expandHourly"
| "getFrequencyExpander MINUTELY = expandMinutely"
| "getFrequencyExpander SECONDLY = expandSecondly"

definition getPeriodStart :: "DateValue \<Rightarrow> Frequency \<Rightarrow> DateValue" where
  "getPeriodStart date fr = date"

fun advancePeriod :: "DateValue \<Rightarrow> Frequency \<Rightarrow> int \<Rightarrow> DateValue" where
  "advancePeriod cursor YEARLY n = addDuration cursor (no_duration \<lparr> years := n \<rparr>)"
| "advancePeriod cursor MONTHLY n = addDuration cursor (no_duration \<lparr> months := n \<rparr>)"
| "advancePeriod cursor WEEKLY n = addDuration cursor (no_duration \<lparr> weeks := n \<rparr>)"
| "advancePeriod cursor DAILY n = addDuration cursor (no_duration \<lparr> days := n \<rparr>)"
| "advancePeriod cursor HOURLY n = addDuration cursor (no_duration \<lparr> hours := n \<rparr>)"
| "advancePeriod cursor MINUTELY n = addDuration cursor (no_duration \<lparr> minutes := n \<rparr>)"
| "advancePeriod cursor SECONDLY n = addDuration cursor (no_duration \<lparr> seconds := n \<rparr>)"

fun advanceCursorToDate :: "DateValue \<Rightarrow> DateValue \<Rightarrow> Frequency \<Rightarrow> int \<Rightarrow> DateValue" where
  "advanceCursorToDate cursor target YEARLY n =
     (let yearDiff = year target - year cursor;
          periodsToSkip = yearDiff div n
      in if periodsToSkip > 0
         then addDuration cursor (no_duration \<lparr> years := periodsToSkip * n \<rparr>)
         else cursor)"
| "advanceCursorToDate cursor target MONTHLY n =
     (let monthDiff = (year target - year cursor) * 12 + (month target - month cursor);
          periodsToSkip = monthDiff div n
      in if periodsToSkip > 0
         then addDuration cursor (no_duration \<lparr> months := periodsToSkip * n \<rparr>)
         else cursor)"
| "advanceCursorToDate cursor target WEEKLY n =
     (let dayDiff = calculateDifferenceInDays cursor target;
          weekDiff = dayDiff div 7;
          periodsToSkip = weekDiff div n
      in if periodsToSkip > 0
         then addDuration cursor (no_duration \<lparr> weeks := periodsToSkip * n \<rparr>)
         else cursor)"
| "advanceCursorToDate cursor target DAILY n =
     (let dayDiff = calculateDifferenceInDays cursor target;
          periodsToSkip = dayDiff div n
      in if periodsToSkip > 0
         then addDuration cursor (no_duration \<lparr> days := periodsToSkip * n \<rparr>)
         else cursor)"
| "advanceCursorToDate cursor target HOURLY n = cursor"
| "advanceCursorToDate cursor target MINUTELY n = cursor"
| "advanceCursorToDate cursor target SECONDLY n = cursor"

text \<open>
  A generator run.  The generator is lazy; since the loop of \<^verbatim>\<open>generateDates\<close> stops at
  the latest when \<^verbatim>\<open>iterations\<close> passes \<^verbatim>\<open>maxIterations\<close>, every run is finite and is
  given here as a whole: the moments yielded in order, how the run ends (a \<^verbatim>\<open>return\<close> or a
  \<^verbatim>\<open>throw\<close>), how often the statement \<^verbatim>\<open>cursor = advancePeriod(...)\<close> was executed, and
  the cursor at the end.  A consumer that stops pulling sees a prefix of \<open>yielded\<close>.
\<close>

datatype ending = Returned | Thrown error

record Run =
  yielded :: "DateValue list"
  ending :: ending
  advances :: nat
  lastCursor :: DateValue

text \<open>
  The \<^verbatim>\<open>for (const date of filtered)\<close> loop of one period: the dates yielded, the new value
  of \<^verbatim>\<open>emitted\<close>, \<^verbatim>\<open>yieldedThisPeriod\<close>, and whether the loop left through \<^verbatim>\<open>return\<close>.
\<close>

fun yieldPeriod ::
  "DateValue \<Rightarrow> DateValue option \<Rightarrow> int option \<Rightarrow> DateValue list \<Rightarrow> int \<Rightarrow> bool
     \<Rightarrow> DateValue list \<times> int \<times> bool \<times> bool" where
  "yieldPeriod dtstart' until' count' [] emitted yieldedThisPeriod =
     ([], emitted, yieldedThisPeriod, False)"
| "yieldPeriod dtstart' until' count' (date # rest) emitted yieldedThisPeriod =
     (if compareDates date dtstart' < 0
      then yieldPeriod dtstart' until' count' rest emitted yieldedThisPeriod
      else if (case until' of None \<Rightarrow> False | Some u \<Rightarrow> compareDates date u > 0)
      then ([], emitted, yieldedThisPeriod, True)
      else if (case count' of None \<Rightarrow> False | Some c \<Rightarrow> emitted + 1 \<ge> c)
      then ([date], emitted + 1, True, True)
      else (case yieldPeriod dtstart' until' count' rest (emitted + 1) True of
              (ds, e, y, r) \<Rightarrow> (date # ds, e, y, r)))"

definition periodDates :: "ParsedRRuleOptions \<Rightarrow> DateValue \<Rightarrow> DateValue list" where
  "periodDates options cursor =
     (let candidates = getFrequencyExpander (freq options) cursor options;
          expanded = concat (map (\<lambda>date. expandByTime date options) candidates)
      in applyBySetPos expanded options)"

function generateLoop ::
  "ParsedRRuleOptions \<Rightarrow> int \<Rightarrow> DateValue \<Rightarrow> int \<Rightarrow> DateValue \<Rightarrow> int \<Rightarrow> int \<Rightarrow> int \<Rightarrow> Run" where
  "generateLoop options maxIterations dtstart' interval' cursor emitted iterations
       consecutiveEmptyPeriods =
     (if iterations > maxIterations
      then \<lparr> yielded = [], ending = Thrown MaxIterationsExceeded, advances = 0,
             lastCursor = cursor \<rparr>
      else
        (case yieldPeriod dtstart' (until options) (count options)
                (periodDates options cursor) emitted False of
           (ds, emitted', yieldedThisPeriod, returned) \<Rightarrow>
             if returned
             then \<lparr> yielded = ds, ending = Returned, advances = 0, lastCursor = cursor \<rparr>
             else
               (let consecutiveEmptyPeriods' =
                      (if yieldedThisPeriod then 0 else consecutiveEmptyPeriods + 1)
                in if \<not> yieldedThisPeriod \<and> consecutiveEmptyPeriods' \<ge> 1000 \<and> emitted' = 0
                   then \<lparr> yielded = ds, ending = Returned, advances = 0, lastCursor = cursor \<rparr>
                   else (let r = generateLoop options maxIterations dtstart' interval'
                                   (advancePeriod cursor (freq options) interval')
                                   emitted' (iterations + 1) consecutiveEmptyPeriods'
                         in r \<lparr> yielded := ds @ yielded r, advances := Suc (advances r) \<rparr>))))"
  by pat_completeness auto
termination
  by (relation "measure (\<lambda>(options, maxIterations, dtstart', interval', cursor, emitted,
                            iterations, consecutiveEmptyPeriods).
                          nat (maxIterations + 1 - iterations))") auto

definition generateDates :: "ParsedRRuleOptions \<Rightarrow> int option \<Rightarrow> DateValue option \<Rightarrow> Run" where
  "generateDates options maxIterations0 after =
     (let maxIterations = (case maxIterations0 of None \<Rightarrow> 10000 | Some m \<Rightarrow> m);
          interval' = (case interval options of None \<Rightarrow> 1 | Some i \<Rightarrow> i)
      in case dtstart options of
           None \<Rightarrow> \<lparr> yielded = [], ending = Thrown DtstartRequired, advances = 0,
                      lastCursor = CalendarDate 0 0 0 \<rparr>
         | Some dtstart' \<Rightarrow>
             if interval' = 0
             then \<lparr> yielded = [], ending = Returned, advances = 0, lastCursor = dtstart' \<rparr>
             else if (case until options of None \<Rightarrow> False
                      | Some u \<Rightarrow> compareDates u dtstart' < 0)
             then \<lparr> yielded = [], ending = Returned, advances = 0, lastCursor = dtstart' \<rparr>
             else (let cursor0 = getPeriodStart dtstart' (freq options);
                       cursor = (case after of
                                   None \<Rightarrow> cursor0
                                 | Some a \<Rightarrow>
                                     if compareDates a dtstart' > 0
                                     then advanceCursorToDate cursor0 a (freq options) interval'
                                     else cursor0)
                   in generateLoop options maxIterations dtstart' interval' cursor 0 0 0))"

section \<open>The \<^verbatim>\<open>RRule\<close> class\<close>

record RRule =
  r_options :: ParsedRRuleOptions
  r_maxIterations :: "int option"

definition newRRule :: "RRuleOptions \<Rightarrow> error + RRule" where
  "newRRule options =
     (case sanitizeRRuleOptions options of
        Inl e \<Rightarrow> Inl e
      | Inr p \<Rightarrow> Inr \<lparr> r_options = p, r_maxIterations = None \<rparr>)"

text \<open>The setters \<^verbatim>\<open>set dtstart\<close> and \<^verbatim>\<open>set maxIterations\<close>.\<close>

definition set_dtstart :: "RRule \<Rightarrow> DateValue option \<Rightarrow> error + RRule" where
  "set_dtstart rule v = Inr (rule \<lparr> r_options := (r_options rule) \<lparr> dtstart := v \<rparr> \<rparr>)"

definition set_maxIterations :: "RRule \<Rightarrow> int option \<Rightarrow> error + RRule" where
  "set_maxIterations rule v =
     (if (case v of None \<Rightarrow> False | Some m \<Rightarrow> m < 1) then Inl MaxIterationsBelowOne
      else Inr (rule \<lparr> r_maxIterations := v \<rparr>))"

text \<open>\<^verbatim>\<open>[Symbol.iterator]\<close>: the run of the generator without a seek target.\<close>

definition iterate :: "RRule \<Rightarrow> Run" where
  "iterate rule = generateDates (r_options rule) (r_maxIterations rule) None"

text \<open>
  A \<^verbatim>\<open>for ... of\<close> loop over a run.  The consumer of \<^verbatim>\<open>after\<close> skips what lies before the
  reference date, collects the rest and stops pulling once \<^verbatim>\<open>limit\<close> results are there
  (a \<^verbatim>\<open>limit\<close> of \<^verbatim>\<open>undefined\<close> or 0 is no limit); when the run is used up, a thrown error
  reaches the caller.
\<close>

fun afterLoop ::
  "DateValue \<Rightarrow> bool \<Rightarrow> int option \<Rightarrow> DateValue list \<Rightarrow> ending \<Rightarrow> DateValue list
     \<Rightarrow> error + DateValue list" where
  "afterLoop date inclusive limit [] e result =
     (case e of Returned \<Rightarrow> Inr result | Thrown err \<Rightarrow> Inl err)"
| "afterLoop date inclusive limit (current # rest) e result =
     (let cmp = compare current date
      in if cmp < 0 then afterLoop date inclusive limit rest e result
         else if cmp = 0 \<and> \<not> inclusive then afterLoop date inclusive limit rest e result
         else if (case limit of None \<Rightarrow> False
                  | Some l \<Rightarrow> l \<noteq> 0 \<and> int (length (result @ [current])) \<ge> l)
         then Inr (result @ [current])
         else afterLoop date inclusive limit rest e (result @ [current]))"

definition after :: "RRule \<Rightarrow> DateValue \<Rightarrow> bool \<Rightarrow> int option \<Rightarrow> error + DateValue list" where
  "after rule date inclusive limit =
     (let run = generateDates (r_options rule) (r_maxIterations rule) (Some date)
      in afterLoop date inclusive limit (yielded run) (ending run) [])"

text \<open>
  The same consumer on the run without a seek target: what section 4.4 of the
  specification calls filtering the unseeked sequence.
\<close>

definition after_unseeked :: "RRule \<Rightarrow> DateValue \<Rightarrow> bool \<Rightarrow> int option \<Rightarrow> error + DateValue list" where
  "after_unseeked rule date inclusive limit =
     (let run = iterate rule
      in afterLoop date inclusive limit (yielded run) (ending run) [])"

text \<open>A rule with nothing but a frequency, to build examples from.\<close>

definition plain_rule :: "Frequency \<Rightarrow> ParsedRRuleOptions" where
  "plain_rule f = \<lparr> freq = f, dtstart = None, interval = None, count = None, until = None,
                    wkst = None, bysetpos = None, bymonth = None, bymonthday = None,
                    byyearday = None, byweekday = None, byweekno = None, byhour = None,
                    byminute = None, bysecond = None \<rparr>"

section \<open>Example inputs\<close>



section \<open>Notions used to state the properties of the generator\<close>

text \<open>One cursor advance of a rule, and the cursor a run starts from (the lines of
  \<^verbatim>\<open>generateDates\<close> before its loop).\<close>

definition advanceBy :: "ParsedRRuleOptions \<Rightarrow> int \<Rightarrow> DateValue \<Rightarrow> DateValue" where
  "advanceBy options i c = advancePeriod c (freq options) i"

definition firstCursor ::
  "ParsedRRuleOptions \<Rightarrow> DateValue \<Rightarrow> int \<Rightarrow> DateValue option \<Rightarrow> DateValue" where
  "firstCursor options dtstart' interval' seek =
     (case seek of
        None \<Rightarrow> getPeriodStart dtstart' (freq options)
      | Some a \<Rightarrow>
          if compareDates a dtstart' > 0
          then advanceCursorToDate (getPeriodStart dtstart' (freq options)) a (freq options)
                 interval'
          else getPeriodStart dtstart' (freq options))"

text \<open>The moments the period at a cursor emits when nothing has been emitted before.\<close>

definition periodEmissions ::
  "ParsedRRuleOptions \<Rightarrow> DateValue \<Rightarrow> DateValue \<Rightarrow> DateValue list" where
  "periodEmissions options dtstart' cursor =
     fst (yieldPeriod dtstart' (until options) (count options) (periodDates options cursor)
            0 False)"

text \<open>
  The run of the loop without its cap, told from the periods.  \<open>periodKept\<close> are the
  candidates of the period at a cursor that are not before the dtstart, in the order of the
  period; \<open>walkedDates\<close> are those of the first \<open>n\<close> periods from a cursor, each cursor
  being the one before advanced once.  The loop is left by a \<^verbatim>\<open>return\<close> within these \<open>n\<close>
  periods exactly when one of the three stop conditions is met among them
  (\<open>stops_within\<close>): one of these dates lies after the until (\<open>past_until\<close>), these dates
  reach the count (\<open>count_reached\<close>), or the first 1,000 periods hold none of them
  (\<open>detector_fires\<close>).
\<close>

definition periodKept :: "ParsedRRuleOptions \<Rightarrow> DateValue \<Rightarrow> DateValue \<Rightarrow> DateValue list" where
  "periodKept options dtstart' cursor =
     filter (\<lambda>date. \<not> compareDates date dtstart' < 0) (periodDates options cursor)"

definition walkedDates ::
  "ParsedRRuleOptions \<Rightarrow> DateValue \<Rightarrow> int \<Rightarrow> DateValue \<Rightarrow> nat \<Rightarrow> DateValue list" where
  "walkedDates options dtstart' interval' cursor n =
     concat (map (\<lambda>k. periodKept options dtstart' ((advanceBy options interval' ^^ k) cursor))
               [0..<n])"

definition past_until :: "ParsedRRuleOptions \<Rightarrow> DateValue \<Rightarrow> bool" where
  "past_until options date =
     (case until options of None \<Rightarrow> False | Some u \<Rightarrow> compareDates date u > 0)"

definition count_reached :: "ParsedRRuleOptions \<Rightarrow> DateValue list \<Rightarrow> bool" where
  "count_reached options dates =
     (case count options of None \<Rightarrow> False | Some c \<Rightarrow> dates \<noteq> [] \<and> int (length dates) \<ge> c)"

definition detector_fires ::
  "ParsedRRuleOptions \<Rightarrow> DateValue \<Rightarrow> int \<Rightarrow> DateValue \<Rightarrow> nat \<Rightarrow> bool" where
  "detector_fires options dtstart' interval' cursor n =
     (1000 \<le> n \<and> walkedDates options dtstart' interval' cursor 1000 = [])"

definition stops_within ::
  "ParsedRRuleOptions \<Rightarrow> DateValue \<Rightarrow> int \<Rightarrow> DateValue \<Rightarrow> nat \<Rightarrow> bool" where
  "stops_within options dtstart' interval' cursor n =
     (list_ex (past_until options) (walkedDates options dtstart' interval' cursor n)
      \<or> count_reached options (walkedDates options dtstart' interval' cursor n)
      \<or> detector_fires options dtstart' interval' cursor n)"

definition interval_or_default :: "ParsedRRuleOptions \<Rightarrow> int" where
  "interval_or_default options = (case interval options of None \<Rightarrow> 1 | Some i \<Rightarrow> i)"

definition maxIterations_or_default :: "int option \<Rightarrow> int" where
  "maxIterations_or_default m = (case m of None \<Rightarrow> 10000 | Some v \<Rightarrow> v)"

text \<open>More example rules.\<close>

definition daily_forever :: ParsedRRuleOptions where
  "daily_forever = (plain_rule DAILY) \<lparr> dtstart := Some (CalendarDate 2025 1 1) \<rparr>"

definition april_31 :: ParsedRRuleOptions where
  "april_31 = (plain_rule MONTHLY) \<lparr> dtstart := Some (CalendarDate 2025 1 31),
                                      bymonthday := Some [31], bymonth := Some [4] \<rparr>"

definition until_2024 :: RRule where
  "until_2024 = \<lparr> r_options = (plain_rule DAILY) \<lparr> dtstart := Some (CalendarDate 2024 1 1),
                                                     until := Some (CalendarDate 2024 12 31) \<rparr>,
                   r_maxIterations = None \<rparr>"

definition monthly_from_jan_31 :: ParsedRRuleOptions where
  "monthly_from_jan_31 =
     (plain_rule MONTHLY) \<lparr> dtstart := Some (CalendarDate 2025 1 31), count := Some 4 \<rparr>"

definition monthly_15th_first_and_last :: ParsedRRuleOptions where
  "monthly_15th_first_and_last =
     (plain_rule MONTHLY) \<lparr> dtstart := Some (CalendarDate 2025 1 15), count := Some 3,
                             bymonthday := Some [15], bysetpos := Some [1, -1] \<rparr>"

definition daily_at_10_and_9 :: ParsedRRuleOptions where
  "daily_at_10_and_9 =
     (plain_rule DAILY) \<lparr> dtstart := Some (CalendarDateTime 2025 1 1 0 0 0 0),
                           count := Some 4, byhour := Some [10, 9] \<rparr>"

definition daily_three_times :: RRule where
  "daily_three_times =
     \<lparr> r_options = (plain_rule DAILY) \<lparr> dtstart := Some (CalendarDate 2025 1 1),
                                         count := Some 3 \<rparr>,
       r_maxIterations = None \<rparr>"

text \<open>Consecutive elements strictly increasing under \<^verbatim>\<open>compareDates\<close>.\<close>

fun strictly_increasing :: "DateValue list \<Rightarrow> bool" where
  "strictly_increasing (a # b # rest) = (compareDates a b < 0 \<and> strictly_increasing (b # rest))"
| "strictly_increasing _ = True"

text \<open>
  The BYSETPOS step in the words of section 4.4 of the specification: sort the expanded
  set, keep position \<open>p - 1\<close> for \<open>p > 0\<close> and \<open>len + p\<close> for \<open>p < 0\<close>, collect the
  unique survivors, sort again; with no BYSETPOS all survive.
\<close>

definition applyBySetPos_spec :: "DateValue list \<Rightarrow> int list \<Rightarrow> DateValue list" where
  "applyBySetPos_spec dates positions =
     (if positions = [] then dates
      else (let sorted = sort_dates dates;
                survivors = concat (map (\<lambda>p.
                  let index = (if p > 0 then p - 1 else int (length sorted) + p)
                  in if index \<ge> 0 \<and> index < int (length sorted) then [sorted ! nat index]
                     else []) positions)
            in sort_dates (unique survivors)))"

section \<open>The textual codec: formatting\<close>

text \<open>
  \<^verbatim>\<open>String(n)\<close>, \<^verbatim>\<open>padZero\<close> of \<^verbatim>\<open>utils.ts\<close> and \<^verbatim>\<open>Array.prototype.join\<close>.

  The numbers of the source are JavaScript numbers, those of the model are integers.  An
  integer of the model stands for the number of the same value, and \<open>show_int\<close> is
  \<^verbatim>\<open>String(n)\<close> of a safe integer (\<^verbatim>\<open>Number.isSafeInteger\<close>, at most \<^verbatim>\<open>2^53 - 1\<close> in absolute
  value): its decimal digits.  Beyond the safe integers JavaScript writes a number rounded,
  and from \<^verbatim>\<open>10^21\<close> on in exponent notation (\<^verbatim>\<open>1e+21\<close>); the model writes no such number:
  \<open>formatRRule\<close> declines a rule that holds one (\<open>numbers_modelled\<close>).
\<close>

definition MAX_SAFE_INTEGER :: int where
  "MAX_SAFE_INTEGER = 9007199254740991"

definition isSafeInteger :: "int \<Rightarrow> bool" where
  "isSafeInteger n = (- MAX_SAFE_INTEGER \<le> n \<and> n \<le> MAX_SAFE_INTEGER)"

definition digit_char :: "nat \<Rightarrow> char" where
  "digit_char d = ''0123456789'' ! d"

fun show_nat :: "nat \<Rightarrow> string" where
  "show_nat n = (if n < 10 then [digit_char n] else show_nat (n div 10) @ [digit_char (n mod 10)])"

definition show_int :: "int \<Rightarrow> string" where
  "show_int n = (if n < 0 then CHR ''-'' # show_nat (nat (- n)) else show_nat (nat n))"

definition padZero :: "int \<Rightarrow> nat \<Rightarrow> string" where
  "padZero v len = (let s = show_int v in replicate (len - length s) (CHR ''0'') @ s)"

fun join :: "string \<Rightarrow> string list \<Rightarrow> string" where
  "join sep [] = []"
| "join sep [x] = x"
| "join sep (x # y # ys) = x @ sep @ join sep (y # ys)"

fun isZonedDateTime :: "DateValue \<Rightarrow> bool" where
  "isZonedDateTime (ZonedDateTime y m d h mi s ms) = True"
| "isZonedDateTime _ = False"

fun isCalendarDateTime :: "DateValue \<Rightarrow> bool" where
  "isCalendarDateTime (CalendarDateTime y m d h mi s ms) = True"
| "isCalendarDateTime _ = False"

text \<open>\<^verbatim>\<open>toZoned(value, 'UTC')\<close>: the wall-clock fields read in UTC.\<close>

definition toZonedUTC :: "DateValue \<Rightarrow> DateValue" where
  "toZonedUTC v =
     ZonedDateTime (year v) (month v) (day v) (hour v) (minute v) (second v) (millisecond v)"

definition formatICSDateValue :: "DateValue \<Rightarrow> string" where
  "formatICSDateValue v =
     (let date = padZero (year v) 4 @ padZero (month v) 2 @ padZero (day v) 2
      in if isCalendarDate v then date
         else (let time = padZero (hour v) 2 @ padZero (minute v) 2 @ padZero (second v) 2
               in if isZonedDateTime v then date @ ''T'' @ time @ ''Z''
                  else date @ ''T'' @ time))"

text \<open>Every moment of the model is plain or in UTC, so \<^verbatim>\<open>formatDTStart\<close> never writes a
  \<^verbatim>\<open>TZID\<close>.\<close>

definition formatDTStart :: "DateValue \<Rightarrow> string" where
  "formatDTStart v = ''DTSTART:'' @ formatICSDateValue v"

definition formatUntilICSDateValue :: "DateValue \<Rightarrow> DateValue option \<Rightarrow> error + string" where
  "formatUntilICSDateValue v start =
     (case start of
        None \<Rightarrow> Inr (formatICSDateValue v)
      | Some s \<Rightarrow>
          if compare v s < 0 then Inl UntilBeforeDtstart
          else (let v1 = (if isCalendarDate s then toCalendarDate v else v);
                    v2 = (if isCalendarDateTime s then toCalendarDateTime v1 else v1);
                    v3 = (if isZonedDateTime s
                          then (if isCalendarDate v2 \<or> isCalendarDateTime v2 then toZonedUTC v2
                                else v2)
                          else v2)
                in Inr (formatICSDateValue v3)))"

fun formatWeekdayValue :: "WeekdayValue \<Rightarrow> string" where
  "formatWeekdayValue (Simple w) = weekday_string w"
| "formatWeekdayValue (Nth w n) = (if n = 0 then weekday_string w else show_int n @ weekday_string w)"

definition number_part :: "string \<Rightarrow> int list option \<Rightarrow> string list" where
  "number_part key vs =
     (case vs of
        None \<Rightarrow> []
      | Some l \<Rightarrow> if length l > 0 then [key @ ''='' @ join '','' (map show_int l)] else [])"

text \<open>The \<^verbatim>\<open>parts\<close> array of \<^verbatim>\<open>formatRRule\<close>, given the formatted \<^verbatim>\<open>UNTIL\<close> part.\<close>

definition rrule_parts :: "ParsedRRuleOptions \<Rightarrow> string list \<Rightarrow> string list" where
  "rrule_parts options untilPart =
     [''FREQ='' @ frequency_string (freq options)]
     @ (case interval options of
          None \<Rightarrow> []
        | Some i \<Rightarrow> if i \<noteq> 1 then [''INTERVAL='' @ show_int i] else [])
     @ (case count options of None \<Rightarrow> [] | Some c \<Rightarrow> [''COUNT='' @ show_int c])
     @ untilPart
     @ (case wkst options of None \<Rightarrow> [] | Some w \<Rightarrow> [''WKST='' @ weekday_string w])
     @ number_part ''BYMONTH'' (bymonth options)
     @ number_part ''BYMONTHDAY'' (bymonthday options)
     @ number_part ''BYYEARDAY'' (byyearday options)
     @ number_part ''BYWEEKNO'' (byweekno options)
     @ (case byweekday options of
          None \<Rightarrow> []
        | Some l \<Rightarrow>
            if length l > 0 then [''BYDAY='' @ join '','' (map formatWeekdayValue l)] else [])
     @ number_part ''BYHOUR'' (byhour options)
     @ number_part ''BYMINUTE'' (byminute options)
     @ number_part ''BYSECOND'' (bysecond options)
     @ number_part ''BYSETPOS'' (bysetpos options)"

text \<open>Every number of the rule that \<^verbatim>\<open>formatRRule\<close> writes is a safe integer.\<close>

definition safe_numbers :: "int list option \<Rightarrow> bool" where
  "safe_numbers vs = (case vs of None \<Rightarrow> True | Some l \<Rightarrow> list_all isSafeInteger l)"

fun safe_term :: "WeekdayValue \<Rightarrow> bool" where
  "safe_term (Simple w) = True"
| "safe_term (Nth w n) = isSafeInteger n"

definition numbers_modelled :: "ParsedRRuleOptions \<Rightarrow> bool" where
  "numbers_modelled options =
     ((case interval options of None \<Rightarrow> True | Some i \<Rightarrow> isSafeInteger i)
      \<and> (case count options of None \<Rightarrow> True | Some c \<Rightarrow> isSafeInteger c)
      \<and> safe_numbers (bymonth options) \<and> safe_numbers (bymonthday options)
      \<and> safe_numbers (byyearday options) \<and> safe_numbers (byweekno options)
      \<and> (case byweekday options of None \<Rightarrow> True | Some l \<Rightarrow> list_all safe_term l)
      \<and> safe_numbers (byhour options) \<and> safe_numbers (byminute options)
      \<and> safe_numbers (bysecond options) \<and> safe_numbers (bysetpos options))"

definition formatRRule :: "ParsedRRuleOptions \<Rightarrow> error + string" where
  "formatRRule options =
     (if \<not> numbers_modelled options then Inl NumberNotModelled
      else (case (case until options of
                    None \<Rightarrow> Inr []
                  | Some u \<Rightarrow>
                      (case formatUntilICSDateValue u (dtstart options) of
                         Inl e \<Rightarrow> Inl e
                       | Inr untilValue \<Rightarrow> Inr [''UNTIL='' @ untilValue])) of
              Inl e \<Rightarrow> Inl e
            | Inr untilPart \<Rightarrow>
                Inr (''RRULE:'' @ join '';'' (rrule_parts options untilPart))))"

definition formatICS :: "ParsedRRuleOptions \<Rightarrow> error + string" where
  "formatICS options =
     (case formatRRule options of
        Inl e \<Rightarrow> Inl e
      | Inr rrule \<Rightarrow>
          (case dtstart options of
             None \<Rightarrow> Inr rrule
           | Some d \<Rightarrow> Inr (formatDTStart d @ [CHR 0x0A] @ rrule)))"

section \<open>The textual codec: parsing\<close>

text \<open>
  \<^verbatim>\<open>String.prototype.split\<close> on a one-character separator (an empty string splits into one
  empty piece), \<^verbatim>\<open>parseList\<close>, \<^verbatim>\<open>splitOnce\<close> and \<^verbatim>\<open>unfoldLine\<close>.
\<close>

fun split_on :: "char \<Rightarrow> string \<Rightarrow> string list" where
  "split_on sep [] = [[]]"
| "split_on sep (c # cs) =
     (if c = sep then [] # split_on sep cs
      else (case split_on sep cs of
              [] \<Rightarrow> [[c]]
            | x # xs \<Rightarrow> (c # x) # xs))"

definition parseList :: "string \<Rightarrow> char \<Rightarrow> string list" where
  "parseList v separator =
     (if trim v = [] then []
      else filter (\<lambda>item. length item > 0) (map trim (split_on separator v)))"

definition splitOnce :: "string \<Rightarrow> char \<Rightarrow> string \<times> string option" where
  "splitOnce v separator =
     (case split_on separator v of
        [] \<Rightarrow> ([], None)
      | [before'] \<Rightarrow> (before', None)
      | before' # after' # _ \<Rightarrow> (before', Some after'))"

definition is_blank :: "char \<Rightarrow> bool" where
  "is_blank c = (c = CHR '' '' \<or> c = CHR 0x09)"

text \<open>The pattern \<^verbatim>\<open>/\r?\n([ \t])(?![ \t])/g\<close> replaced by nothing.\<close>

definition not_followed_by_blank :: "string \<Rightarrow> bool" where
  "not_followed_by_blank s = (case s of [] \<Rightarrow> True | c # _ \<Rightarrow> \<not> is_blank c)"

fun unfoldLine :: "string \<Rightarrow> string" where
  "unfoldLine [] = []"
| "unfoldLine (a # rest) =
     (case rest of
        b # c # rest' \<Rightarrow>
          if a = CHR 0x0D \<and> b = CHR 0x0A \<and> is_blank c \<and> not_followed_by_blank rest'
          then unfoldLine rest'
          else if a = CHR 0x0A \<and> is_blank b \<and> not_followed_by_blank (c # rest')
          then unfoldLine (c # rest')
          else a # unfoldLine rest
      | [b] \<Rightarrow>
          if a = CHR 0x0A \<and> is_blank b then []
          else a # unfoldLine rest
      | [] \<Rightarrow> [a])"

definition parseIntegerList :: "string \<Rightarrow> int list" where
  "parseIntegerList v = List.map_filter parseInteger (parseList v (CHR '',''))"

definition parsePositiveInteger :: "string \<Rightarrow> error + int" where
  "parsePositiveInteger v =
     (case parseInteger v of
        None \<Rightarrow> Inl InvalidValue
      | Some n \<Rightarrow> if n > 0 then Inr n else Inl InvalidValue)"

definition parseFrequency :: "string \<Rightarrow> error + Frequency" where
  "parseFrequency v0 =
     (let v = toUpperCase (trim v0)
      in if v = [] then Inl InvalidFrequency
         else case frequency_of_string v of
                None \<Rightarrow> Inl InvalidFrequency
              | Some f \<Rightarrow> Inr f)"

text \<open>
  \<^verbatim>\<open>parseICSDateValue\<close>.  The shape test is the pattern \<^verbatim>\<open>/^\d{8}(?:T\d{6}Z?)?$/\<close>.
  Modelled from the spec: the package's \<^verbatim>\<open>parseDate\<close>, \<^verbatim>\<open>parseDateTime\<close> and
  \<^verbatim>\<open>parseAbsolute\<close> accept exactly the dates of the calendar with a time of day in range
  (\<open>valid_date\<close>, \<open>valid_time\<close>) and reject every other literal (InvalidMoment, section 7).
\<close>

definition valid_date :: "int \<Rightarrow> int \<Rightarrow> int \<Rightarrow> bool" where
  "valid_date y m d = (1 \<le> y \<and> y \<le> 9999 \<and> 1 \<le> m \<and> m \<le> 12 \<and> 1 \<le> d \<and> d \<le> days_in_month y m)"

definition valid_time :: "int \<Rightarrow> int \<Rightarrow> int \<Rightarrow> bool" where
  "valid_time h mi s = (0 \<le> h \<and> h \<le> 23 \<and> 0 \<le> mi \<and> mi \<le> 59 \<and> 0 \<le> s \<and> s \<le> 59)"

definition slice :: "string \<Rightarrow> nat \<Rightarrow> nat \<Rightarrow> string" where
  "slice s from to = take (to - from) (drop from s)"

definition ics_date_shape :: "string \<Rightarrow> bool" where
  "ics_date_shape v =
     (list_all is_digit (take 8 v) \<and> length v \<ge> 8
      \<and> (length v = 8
          \<or> ((length v = 15 \<or> (length v = 16 \<and> v ! 15 = CHR ''Z''))
              \<and> v ! 8 = CHR ''T'' \<and> list_all is_digit (slice v 9 15))))"

definition parseICSDateValue :: "string \<Rightarrow> error + DateValue" where
  "parseICSDateValue v0 =
     (let v = trim v0
      in if \<not> ics_date_shape v then Inl InvalidICSDate
         else (let y = parseInteger (slice v 0 4);
                   m = parseInteger (slice v 4 6);
                   d = parseInteger (slice v 6 8);
                   h = parseInteger (slice v 9 11);
                   mi = parseInteger (slice v 11 13);
                   s = parseInteger (slice v 13 15)
               in case (y, m, d) of
                    (Some y', Some m', Some d') \<Rightarrow>
                      (case (h, mi, s) of
                         (Some h', Some mi', Some s') \<Rightarrow>
                           if \<not> (valid_date y' m' d' \<and> valid_time h' mi' s')
                           then Inl InvalidICSDate
                           else if v \<noteq> [] \<and> last v = CHR ''Z''
                           then Inr (ZonedDateTime y' m' d' h' mi' s' 0)
                           else Inr (CalendarDateTime y' m' d' h' mi' s' 0)
                       | _ \<Rightarrow>
                           if valid_date y' m' d' then Inr (CalendarDate y' m' d')
                           else Inl InvalidICSDate)
                  | _ \<Rightarrow> Inl InvalidICSDate))"

definition parseRRuleFrequency :: "string \<Rightarrow> bool \<Rightarrow> error + Frequency" where
  "parseRRuleFrequency v strict =
     (case parseFrequency v of
        Inl _ \<Rightarrow> if strict then Inl InvalidValue else Inr YEARLY
      | Inr f \<Rightarrow> Inr f)"

definition parseRRuleInterval :: "string \<Rightarrow> bool \<Rightarrow> error + int" where
  "parseRRuleInterval v strict =
     (case parsePositiveInteger v of
        Inl _ \<Rightarrow> if strict then Inl InvalidValue else Inr 1
      | Inr n \<Rightarrow> Inr n)"

definition parseRRuleCount :: "string \<Rightarrow> bool \<Rightarrow> error + int option" where
  "parseRRuleCount v strict =
     (case parsePositiveInteger v of
        Inl _ \<Rightarrow> if strict then Inl InvalidValue else Inr None
      | Inr n \<Rightarrow> Inr (Some n))"

definition parseRRuleUntil :: "string \<Rightarrow> bool \<Rightarrow> error + DateValue option" where
  "parseRRuleUntil v strict =
     (case parseICSDateValue (trim v) of
        Inl _ \<Rightarrow> if strict then Inl InvalidValue else Inr None
      | Inr d \<Rightarrow> Inr (Some d))"

definition parseRRuleWkst :: "string \<Rightarrow> bool \<Rightarrow> error + Weekday option" where
  "parseRRuleWkst v strict =
     (if trim v = [] then Inr None
      else case parseWeekday v of
             Inl _ \<Rightarrow> if strict then Inl InvalidValue else Inr None
           | Inr w \<Rightarrow> Inr (Some w))"

fun byDayLoop :: "bool \<Rightarrow> string list \<Rightarrow> error + WeekdayValue list" where
  "byDayLoop strict [] = Inr []"
| "byDayLoop strict (d # rest) =
     (case parseWeekdayValue d of
        Inl _ \<Rightarrow> if strict then Inl InvalidValue else byDayLoop strict rest
      | Inr weekdayValue \<Rightarrow>
          (case byDayLoop strict rest of
             Inl e \<Rightarrow> Inl e
           | Inr weekdayValues \<Rightarrow> Inr (weekdayValue # weekdayValues)))"

definition parseRRuleByDay :: "string \<Rightarrow> bool \<Rightarrow> error + WeekdayValue list" where
  "parseRRuleByDay v strict =
     (let weekdays = parseList v (CHR '','')
      in if length weekdays = 0 then Inr []
         else case byDayLoop strict weekdays of
                Inl e \<Rightarrow> Inl e
              | Inr weekdayValues \<Rightarrow> Inr (uniqueWeekdayValues weekdayValues))"

fun numberLoop :: "int \<Rightarrow> int \<Rightarrow> bool \<Rightarrow> bool \<Rightarrow> int list \<Rightarrow> error + int list" where
  "numberLoop min_v max_v excludeZero strict [] = Inr []"
| "numberLoop min_v max_v excludeZero strict (n # rest) =
     (if (excludeZero \<and> n = 0) \<or> \<not> (n \<ge> min_v \<and> n \<le> max_v)
      then (if strict then Inl InvalidValue
            else numberLoop min_v max_v excludeZero strict rest)
      else (case numberLoop min_v max_v excludeZero strict rest of
              Inl e \<Rightarrow> Inl e
            | Inr vs \<Rightarrow> Inr (n # vs)))"

definition parseRRuleNumberList ::
  "string \<Rightarrow> int \<Rightarrow> int \<Rightarrow> bool \<Rightarrow> bool \<Rightarrow> error + int list" where
  "parseRRuleNumberList v min_v max_v excludeZero strict =
     (let numbers = parseIntegerList v
      in if length numbers = 0 then Inr []
         else case numberLoop min_v max_v excludeZero strict numbers of
                Inl e \<Rightarrow> Inl e
              | Inr vs \<Rightarrow> Inr (unique vs))"

text \<open>
  The body of the loop of \<^verbatim>\<open>parseRRule\<close>: \<open>parseParam\<close> is the \<^verbatim>\<open>try\<close> block,
  \<open>switchParam\<close> its \<^verbatim>\<open>switch\<close> on the upper-cased key.  The options built so far are a
  pair: the frequency, absent until a \<^verbatim>\<open>FREQ\<close> key is read, and the other fields.
\<close>

definition set_numbers ::
  "(error + int list) \<Rightarrow> (int list \<Rightarrow> ParsedRRuleOptions) \<Rightarrow> Frequency option
     \<Rightarrow> error + Frequency option \<times> ParsedRRuleOptions" where
  "set_numbers parsed store fr =
     (case parsed of Inl e \<Rightarrow> Inl e | Inr vs \<Rightarrow> Inr (fr, store vs))"

definition switchParam ::
  "bool \<Rightarrow> string \<Rightarrow> string \<Rightarrow> Frequency option \<times> ParsedRRuleOptions
     \<Rightarrow> error + Frequency option \<times> ParsedRRuleOptions" where
  "switchParam strict k v acc =
     (case acc of (fr, options) \<Rightarrow>
        if k = ''FREQ''
        then (case parseRRuleFrequency v strict of
                Inl e \<Rightarrow> Inl e | Inr f \<Rightarrow> Inr (Some f, options))
        else if k = ''INTERVAL''
        then (case parseRRuleInterval v strict of
                Inl e \<Rightarrow> Inl e
              | Inr n \<Rightarrow> Inr (fr, options \<lparr> interval := Some n \<rparr>))
        else if k = ''COUNT''
        then (case parseRRuleCount v strict of
                Inl e \<Rightarrow> Inl e | Inr c \<Rightarrow> Inr (fr, options \<lparr> count := c \<rparr>))
        else if k = ''UNTIL''
        then (case parseRRuleUntil v strict of
                Inl e \<Rightarrow> Inl e | Inr u \<Rightarrow> Inr (fr, options \<lparr> until := u \<rparr>))
        else if k = ''WKST''
        then (case parseRRuleWkst v strict of
                Inl e \<Rightarrow> Inl e | Inr w \<Rightarrow> Inr (fr, options \<lparr> wkst := w \<rparr>))
        else if k = ''BYDAY'' \<or> k = ''BYWEEKDAY''
        then (case parseRRuleByDay v strict of
                Inl e \<Rightarrow> Inl e
              | Inr ws \<Rightarrow> Inr (fr, options \<lparr> byweekday := Some ws \<rparr>))
        else if k = ''BYMONTH''
        then set_numbers (parseRRuleNumberList v 1 12 True strict)
               (\<lambda>vs. options \<lparr> bymonth := Some vs \<rparr>) fr
        else if k = ''BYMONTHDAY''
        then set_numbers (parseRRuleNumberList v (-31) 31 True strict)
               (\<lambda>vs. options \<lparr> bymonthday := Some vs \<rparr>) fr
        else if k = ''BYYEARDAY''
        then set_numbers (parseRRuleNumberList v (-366) 366 True strict)
               (\<lambda>vs. options \<lparr> byyearday := Some vs \<rparr>) fr
        else if k = ''BYWEEKNO''
        then set_numbers (parseRRuleNumberList v (-53) 53 True strict)
               (\<lambda>vs. options \<lparr> byweekno := Some vs \<rparr>) fr
        else if k = ''BYHOUR''
        then set_numbers (parseRRuleNumberList v 0 23 False strict)
               (\<lambda>vs. options \<lparr> byhour := Some vs \<rparr>) fr
        else if k = ''BYMINUTE''
        then set_numbers (parseRRuleNumberList v 0 59 False strict)
               (\<lambda>vs. options \<lparr> byminute := Some vs \<rparr>) fr
        else if k = ''BYSECOND''
        then set_numbers (parseRRuleNumberList v 0 59 False strict)
               (\<lambda>vs. options \<lparr> bysecond := Some vs \<rparr>) fr
        else if k = ''BYSETPOS''
        then set_numbers (parseRRuleNumberList v (-366) 366 True strict)
               (\<lambda>vs. options \<lparr> bysetpos := Some vs \<rparr>) fr
        else Inl UnknownRRuleParameter)"

definition parseParam ::
  "bool \<Rightarrow> string \<Rightarrow> Frequency option \<times> ParsedRRuleOptions
     \<Rightarrow> error + Frequency option \<times> ParsedRRuleOptions" where
  "parseParam strict param acc =
     (case splitOnce param (CHR ''='') of (key, v) \<Rightarrow>
        if key = [] \<or> v = None \<or> v = Some [] then Inl InvalidRRuleParameter
        else switchParam strict (toUpperCase key) (the v) acc)"

fun parseParams ::
  "bool \<Rightarrow> string list \<Rightarrow> Frequency option \<times> ParsedRRuleOptions
     \<Rightarrow> error + Frequency option \<times> ParsedRRuleOptions" where
  "parseParams strict [] acc = Inr acc"
| "parseParams strict (param # rest) acc =
     (case parseParam strict param acc of
        Inl e \<Rightarrow> if strict then Inl e else parseParams strict rest acc
      | Inr acc' \<Rightarrow> parseParams strict rest acc')"

definition is_line_terminator :: "char \<Rightarrow> bool" where
  "is_line_terminator c = (c = CHR 0x0A \<or> c = CHR 0x0D)"

text \<open>The pattern \<^verbatim>\<open>/^RRULE:(.+)$/i\<close>: the text after the prefix, when there is a match.\<close>

definition match_rrule :: "string \<Rightarrow> string option" where
  "match_rrule s =
     (if toUpperCase (take 6 s) = ''RRULE:'' \<and> drop 6 s \<noteq> []
         \<and> \<not> list_ex is_line_terminator (drop 6 s)
      then Some (drop 6 s) else None)"

definition parseRRule :: "string \<Rightarrow> bool \<Rightarrow> error + ParsedRRuleOptions" where
  "parseRRule rruleString strict =
     (let unfolded = unfoldLine (trim rruleString)
      in case match_rrule unfolded of
           None \<Rightarrow> Inl InvalidRRuleString
         | Some rrule \<Rightarrow>
             (case parseParams strict (parseList rrule (CHR '';'')) (None, plain_rule YEARLY) of
                Inl e \<Rightarrow> Inl e
              | Inr (fr, options) \<Rightarrow>
                  (case fr of
                     None \<Rightarrow> Inl FreqRequired
                   | Some f \<Rightarrow>
                       if count options \<noteq> None \<and> until options \<noteq> None
                       then Inl CountUntilExclusive
                       else Inr (options \<lparr> freq := f \<rparr>))))"

text \<open>
  \<^verbatim>\<open>parseDTStart\<close>.  The pattern \<^verbatim>\<open>/^DTSTART([^:]*):(.+)$/i\<close> gives the parameters (up to
  the first colon) and the value; \<^verbatim>\<open>parseDTStartParam\<close> looks for \<^verbatim>\<open>;TZID=\<close> followed
  by characters other than \<^verbatim>\<open>;\<close> and \<^verbatim>\<open>:\<close>.
\<close>

definition match_dtstart :: "string \<Rightarrow> (string \<times> string) option" where
  "match_dtstart s =
     (let rest = drop 7 s;
          params = takeWhile (\<lambda>c. c \<noteq> CHR '':'') rest;
          tail = dropWhile (\<lambda>c. c \<noteq> CHR '':'') rest
      in if toUpperCase (take 7 s) = ''DTSTART'' \<and> length tail \<ge> 2
            \<and> \<not> list_ex is_line_terminator (drop 1 tail)
         then Some (params, drop 1 tail) else None)"

fun find_tzid :: "string \<Rightarrow> string option" where
  "find_tzid [] = None"
| "find_tzid (c # cs) =
     (let v = takeWhile (\<lambda>x. x \<noteq> CHR '';'' \<and> x \<noteq> CHR '':'') (drop 6 (c # cs))
      in if toUpperCase (take 6 (c # cs)) = '';TZID='' \<and> v \<noteq> [] then Some v
         else find_tzid cs)"

definition parseDTStart :: "string \<Rightarrow> bool \<Rightarrow> error + DateValue option" where
  "parseDTStart value0 strict =
     (case match_dtstart (trim value0) of
        None \<Rightarrow> if strict then Inl InvalidDtstart else Inr None
      | Some (params, dateValue) \<Rightarrow>
          (case parseICSDateValue dateValue of
             Inl e \<Rightarrow> Inl e
           | Inr date \<Rightarrow>
               (case find_tzid params of
                  None \<Rightarrow> Inr (Some date)
                | Some tzid \<Rightarrow>
                    if isCalendarDateTime date
                    then (if tzid = ''UTC''
                          then (if strict then Inl InvalidDtstart
                                else Inr (Some (toZonedUTC date)))
                          else Inl ZoneNotModelled)
                    else if strict then Inl InvalidDtstart
                    else Inr (Some date))))"

text \<open>\<^verbatim>\<open>split(/\r?\n/)\<close>: a carriage return before a line feed belongs to the separator.\<close>

fun strip_cr :: "string list \<Rightarrow> string list" where
  "strip_cr [] = []"
| "strip_cr [l] = [l]"
| "strip_cr (l # ls) =
     (if l \<noteq> [] \<and> last l = CHR 0x0D then butlast l else l) # strip_cr ls"

definition split_lines :: "string \<Rightarrow> string list" where
  "split_lines s = strip_cr (split_on (CHR 0x0A) s)"

fun scanLines ::
  "bool \<Rightarrow> string list \<Rightarrow> DateValue option \<Rightarrow> string option
     \<Rightarrow> error + DateValue option \<times> string option" where
  "scanLines strict [] dt rruleLine = Inr (dt, rruleLine)"
| "scanLines strict (line # rest) dt rruleLine =
     (if toUpperCase (take 7 line) = ''DTSTART''
      then (case parseDTStart line strict of
              Inl e \<Rightarrow> Inl e
            | Inr d \<Rightarrow> scanLines strict rest d rruleLine)
      else if toUpperCase (take 6 line) = ''RRULE:'' then scanLines strict rest dt (Some line)
      else scanLines strict rest dt rruleLine)"

definition parseICS :: "string \<Rightarrow> bool \<Rightarrow> error + ParsedRRuleOptions" where
  "parseICS icsString strict =
     (let unfolded = unfoldLine (trim icsString);
          lines = filter (\<lambda>line. length line > 0) (map trim (split_lines unfolded))
      in case scanLines strict lines None None of
           Inl e \<Rightarrow> Inl e
         | Inr (dt, rruleLine) \<Rightarrow>
             (case rruleLine of
                None \<Rightarrow> Inl RRuleLineNotFound
              | Some line \<Rightarrow>
                  (case parseRRule line strict of
                     Inl e \<Rightarrow> Inl e
                   | Inr rruleOptions \<Rightarrow>
                       (case dt of
                          None \<Rightarrow> Inr rruleOptions
                        | Some d \<Rightarrow> Inr (rruleOptions \<lparr> dtstart := Some d \<rparr>)))))"

section \<open>Notions used to state the round trip\<close>

text \<open>The characters the formatter writes inside a value: digits, capitals and the minus.\<close>

definition token_char :: "char \<Rightarrow> bool" where
  "token_char c = (is_digit c \<or> is_upper c \<or> c = CHR ''-'')"

text \<open>
  A moment the textual form can carry: a date of the calendar in the years 1 to 9999, a
  time of day in range, whole seconds.
\<close>

definition printable_moment :: "DateValue \<Rightarrow> bool" where
  "printable_moment v =
     (valid_date (year v) (month v) (day v) \<and> valid_time (hour v) (minute v) (second v)
      \<and> millisecond v = 0)"

text \<open>A weekday term the textual form can carry: bare, or with an ordinal other than 0.\<close>

fun printable_term :: "WeekdayValue \<Rightarrow> bool" where
  "printable_term (Simple w) = True"
| "printable_term (Nth w n) = (n \<noteq> 0 \<and> - 53 \<le> n \<and> n \<le> 53)"

text \<open>The characters of a value (tokens and commas) and of a whole parameter.\<close>

definition value_char :: "char \<Rightarrow> bool" where
  "value_char c = (token_char c \<or> c = CHR '','')"

definition part_char :: "char \<Rightarrow> bool" where
  "part_char c = (value_char c \<or> c = CHR ''='')"

definition same_variant :: "DateValue \<Rightarrow> DateValue \<Rightarrow> bool" where
  "same_variant a b =
     (isCalendarDate a = isCalendarDate b \<and> isCalendarDateTime a = isCalendarDateTime b
      \<and> isZonedDateTime a = isZonedDateTime b)"

text \<open>
  The rules the text represents faithfully: the interval is not the default 1 (which the
  formatter omits), the interval and the count are safe integers (which the formatter
  writes with all their digits), no selector list is present but empty, weekday ordinals
  are not 0, the anchors are printable, and an UNTIL has the variant of the DTSTART it is
  written for.
\<close>

definition round_trip_form :: "ParsedRRuleOptions \<Rightarrow> bool" where
  "round_trip_form R =
     (interval R \<noteq> Some 1
      \<and> (case interval R of None \<Rightarrow> True | Some i \<Rightarrow> isSafeInteger i)
      \<and> (case count R of None \<Rightarrow> True | Some c \<Rightarrow> isSafeInteger c)
      \<and> bysetpos R \<noteq> Some [] \<and> bymonth R \<noteq> Some [] \<and> bymonthday R \<noteq> Some []
      \<and> byyearday R \<noteq> Some [] \<and> byweekday R \<noteq> Some [] \<and> byweekno R \<noteq> Some []
      \<and> byhour R \<noteq> Some [] \<and> byminute R \<noteq> Some [] \<and> bysecond R \<noteq> Some []
      \<and> (case byweekday R of None \<Rightarrow> True | Some l \<Rightarrow> list_all printable_term l)
      \<and> (case dtstart R of None \<Rightarrow> True | Some d \<Rightarrow> printable_moment d)
      \<and> (case until R of
            None \<Rightarrow> True
          | Some u \<Rightarrow>
              printable_moment u
              \<and> (case dtstart R of None \<Rightarrow> True | Some d \<Rightarrow> same_variant u d)))"

text \<open>What the sanitizer guarantees and the round trip uses.\<close>

definition sanitized_shape :: "ParsedRRuleOptions \<Rightarrow> bool" where
  "sanitized_shape R =
     ((case interval R of None \<Rightarrow> True | Some i \<Rightarrow> 1 \<le> i)
      \<and> (case count R of None \<Rightarrow> True | Some c \<Rightarrow> 1 \<le> c)
      \<and> \<not> (count R \<noteq> None \<and> until R \<noteq> None)
      \<and> (case (until R, dtstart R) of (Some u, Some d) \<Rightarrow> \<not> compare u d < 0 | _ \<Rightarrow> True)
      \<and> in_range (bysetpos R) (-366) 366 False \<and> in_range (bymonth R) 1 12 False
      \<and> in_range (bymonthday R) (-31) 31 False \<and> in_range (byyearday R) (-366) 366 False
      \<and> in_range (byweekno R) (-53) 53 False \<and> in_range (byhour R) 0 23 True
      \<and> in_range (byminute R) 0 59 True \<and> in_range (bysecond R) 0 59 True
      \<and> (case byweekday R of None \<Rightarrow> True | Some l \<Rightarrow> distinct l))"

text \<open>The options a rule text without DTSTART line parses to: the rule with its dtstart
  removed.\<close>

definition without_dtstart :: "ParsedRRuleOptions \<Rightarrow> ParsedRRuleOptions" where
  "without_dtstart R = R \<lparr> dtstart := None \<rparr>"

text \<open>A sanitized rule with the default interval written out.\<close>

definition options_interval_1 :: RRuleOptions where
  "options_interval_1 = no_options \<lparr> in_freq := Some DAILY, in_interval := Some 1 \<rparr>"

definition rule_interval_1 :: ParsedRRuleOptions where
  "rule_interval_1 = (plain_rule DAILY) \<lparr> interval := Some 1 \<rparr>"

text \<open>A sanitized rule in the form the text represents faithfully.\<close>

definition options_every_other_week :: RRuleOptions where
  "options_every_other_week =
     no_options \<lparr> in_freq := Some WEEKLY, in_dtstart := Some (CalendarDateTime 1997 9 2 9 0 0 0),
                  in_interval := Some 2, in_until := Some (CalendarDateTime 1997 12 24 0 0 0 0),
                  in_wkst := Some ''SU'',
                  in_byweekday := Some [InString ''TU'', InString ''-1FR''],
                  in_bymonth := Some [9, 10, 12] \<rparr>"

definition rule_every_other_week :: ParsedRRuleOptions where
  "rule_every_other_week =
     (plain_rule WEEKLY) \<lparr> dtstart := Some (CalendarDateTime 1997 9 2 9 0 0 0),
                            interval := Some 2,
                            until := Some (CalendarDateTime 1997 12 24 0 0 0 0),
                            wkst := Some SU, byweekday := Some [Simple TU, Nth FR (- 1)],
                            bymonth := Some [9, 10, 12] \<rparr>"

text \<open>A list of parameters as the formatter writes them: none is empty, and each is made of
  the characters of a parameter.\<close>

definition piece_ok :: "string list \<Rightarrow> bool" where
  "piece_ok ps = (\<forall>p \<in> set ps. p \<noteq> [] \<and> list_all part_char p)"
section \<open>Facts about the string helpers\<close>

lemma weekday_of_string_weekday_string [simp]: "weekday_of_string (weekday_string wd) = Some wd"
  by (cases wd) (simp_all add: weekday_of_string_def)

lemma length_weekday_string [simp]: "length (weekday_string wd) = 2"
  by (cases wd) simp_all

lemma weekday_of_string_length: "weekday_of_string s = Some w \<Longrightarrow> length s = 2"
  by (auto simp: weekday_of_string_def split: if_splits)

lemma upper_weekday_string [simp]: "list_all is_upper (weekday_string wd)"
  by (cases wd) (simp_all add: is_upper_def char_code_def)

lemma is_digit_not_space: "is_digit c \<Longrightarrow> \<not> is_space c"
  by (simp add: is_digit_def is_space_def)

lemma is_digit_upper_char: "is_digit c \<Longrightarrow> upper_char c = c"
  by (simp add: is_digit_def upper_char_def is_lower_def)

lemma is_upper_upper_char: "is_upper c \<Longrightarrow> upper_char c = c"
  by (simp add: is_upper_def upper_char_def is_lower_def)

lemma is_upper_not_space: "is_upper c \<Longrightarrow> \<not> is_space c"
  by (simp add: is_upper_def is_space_def)

lemma is_digit_not_sign: "is_digit c \<Longrightarrow> c \<noteq> CHR ''+'' \<and> c \<noteq> CHR ''-''"
  by (auto simp add: is_digit_def char_code_def)

lemma trim_id:
  assumes "s \<noteq> []" "\<not> is_space (hd s)" "\<not> is_space (last s)"
  shows "trim s = s"
proof -
  from assms have lead: "dropWhile is_space s = s" by (cases s) auto
  from assms have trail: "dropWhile is_space (rev s) = rev s"
    by (cases "rev s") (auto simp: hd_rev)
  show ?thesis by (simp add: trim_def lead trail)
qed

section \<open>Weekday terms in the sanitizer\<close>

lemma parseInteger_signed:
  assumes "sign \<in> {[], ''+'', ''-''}" "ds \<noteq> []" "list_all is_digit ds"
  shows "parseInteger (sign @ ds) = Some (token_ordinal sign ds)"
proof -
  from assms obtain c r where ds: "ds = c # r" and c: "is_digit c" by (cases ds) auto
  have ns: "\<not> is_space c" using c by (rule is_digit_not_space)
  have sg: "c \<noteq> CHR ''+''" "c \<noteq> CHR ''-''" using is_digit_not_sign[OF c] by auto
  have sp: "\<not> is_space (CHR ''+'')" "\<not> is_space (CHR ''-'')"
    by (simp_all add: is_space_def char_code_def)
  from assms(1) consider "sign = []" | "sign = ''+''" | "sign = ''-''" by auto
  then show ?thesis
  proof cases
    case 1 then show ?thesis using ns sg c by (simp add: parseInteger_def ds token_ordinal_def)
  next
    case 2 then show ?thesis using sp c by (simp add: parseInteger_def ds token_ordinal_def)
  next
    case 3 then show ?thesis using sp c by (simp add: parseInteger_def ds token_ordinal_def)
  qed
qed

lemma token_shape:
  assumes "sign \<in> {[], ''+'', ''-''}" "list_all is_digit ds" "length ds = 1 \<or> length ds = 2"
  shows "toUpperCase (trim (sign @ ds @ weekday_string wd)) = sign @ ds @ weekday_string wd"
    and "match_weekday_token (sign @ ds @ weekday_string wd)
           = Some (Some (sign @ ds), weekday_string wd)"
    and "weekday_of_string (sign @ ds @ weekday_string wd) = None"
proof -
  let ?s = "sign @ ds @ weekday_string wd"
  from assms obtain c r where ds: "ds = c # r" and c: "is_digit c" by (cases ds) auto
  have sp: "\<not> is_space (CHR ''+'')" "\<not> is_space (CHR ''-'')"
    by (simp_all add: is_space_def char_code_def)
  have h: "\<not> is_space (hd ?s)" using assms(1) sp is_digit_not_space[OF c] by (auto simp: ds)
  have "is_upper (last (weekday_string wd))"
    by (cases wd) (simp_all add: is_upper_def char_code_def)
  moreover have "last ?s = last (weekday_string wd)" by (cases wd) simp_all
  ultimately have l: "\<not> is_space (last ?s)" by (simp add: is_upper_not_space)
  have t: "trim ?s = ?s" using h l by (intro trim_id) (simp_all add: ds)
  have up_sign: "map upper_char sign = sign" using assms(1)
    by (auto simp: upper_char_def is_lower_def char_code_def)
  have up_ds: "map upper_char ds = ds" using assms(2)
    by (induction ds) (simp_all add: is_digit_upper_char)
  have up_wd: "map upper_char (weekday_string wd) = weekday_string wd"
    using upper_weekday_string[of wd] by (cases wd) (simp_all add: is_upper_upper_char)
  show "toUpperCase (trim ?s) = ?s" by (simp add: t toUpperCase_def up_sign up_ds up_wd)
  have occ: "is_occurrence (sign @ ds)" using assms is_digit_not_sign[OF c]
    by (auto simp: is_occurrence_def ds)
  show "match_weekday_token ?s = Some (Some (sign @ ds), weekday_string wd)"
    using occ by (simp add: match_weekday_token_def ds)
  have "length ?s \<noteq> 2" by (simp add: ds)
  then show "weekday_of_string ?s = None"
    using weekday_of_string_length[of ?s] by (cases "weekday_of_string ?s") auto
qed

lemma sanitize_token:
  assumes "sign \<in> {[], ''+'', ''-''}" "list_all is_digit ds" "length ds = 1 \<or> length ds = 2"
  shows "sanitizeWeekdayValue (InString (sign @ ds @ weekday_string wd)) =
          (let n = token_ordinal sign ds
           in if 1 \<le> \<bar>n\<bar> \<and> \<bar>n\<bar> \<le> 53 then Some (Nth wd n) else None)"
proof -
  have ne: "ds \<noteq> []" using assms(3) by auto
  note sh = token_shape[OF assms, of wd]
  have nw: "\<not> isWeekday (sign @ ds @ weekday_string wd)" by (simp add: isWeekday_def sh(3))
  have p: "parseWeekdayValue (sign @ ds @ weekday_string wd) =
           (let n = token_ordinal sign ds in
            if n = 0 then Inl WeekdayOccurrenceZero
            else if n < -53 \<or> n > 53 then Inl WeekdayOccurrenceRange else Inr (Nth wd n))"
    unfolding parseWeekdayValue_def sh(1) Let_def
    by (simp add: sh(2) parseInteger_signed[OF assms(1) ne assms(2)] ne)
  show ?thesis
    by (auto simp: nw p Let_def)
qed

lemma sanitize_bare: "sanitizeWeekdayValue (InString (weekday_string wd)) = Some (Simple wd)"
  by (cases wd) (simp_all add: isWeekday_def weekday_of_string_def)

lemma sanitize_record:
  "sanitizeWeekdayValue (InRecord (weekday_string wd) n) =
     (if -53 < n \<and> n < 53 then Some (Nth wd n) else None)"
  by (simp add: isWeekday_def)

text \<open>
  The record branch of \<^verbatim>\<open>isWeekdayValue\<close> has no test for zero, so a record with
  \<open>n = 0\<close> passes through the sanitizer, although \<^verbatim>\<open>parseWeekdayValue\<close> refuses the
  token \<^verbatim>\<open>0MO\<close>.
\<close>

lemma record_zero_ordinal_is_kept:
  "sanitizeWeekdayValue (InRecord ''MO'' 0) = Some (Nth MO 0)
   \<and> sanitizeWeekdayValue (InString ''0MO'') = None"
  by code_simp

text \<open>
  Claim C9, as amended.  A bare weekday is kept.  A textual token made of an optional sign,
  one or two digits and a weekday is kept exactly when its ordinal \<open>n\<close> satisfies
  \<open>1 \<le> |n| \<le> 53\<close>; \<open>n = 0\<close> and \<open>|n| \<ge> 54\<close> are dropped.  A record
  \<^verbatim>\<open>{ weekday, n }\<close> with a non-zero ordinal is kept exactly when \<open>|n| \<le> 52\<close>: the
  records with \<open>n = 53\<close> and \<open>n = -53\<close> are dropped.
\<close>

theorem byweekday_ordinal_range:
  "(sign \<in> {[], ''+'', ''-''} \<and> list_all is_digit ds \<and> (length ds = 1 \<or> length ds = 2)
      \<longrightarrow> sanitizeWeekdayValue (InString (sign @ ds @ weekday_string wd)) =
            (let n = token_ordinal sign ds
             in if 1 \<le> \<bar>n\<bar> \<and> \<bar>n\<bar> \<le> 53 then Some (Nth wd n) else None))
   \<and> sanitizeWeekdayValue (InString (weekday_string wd)) = Some (Simple wd)
   \<and> (k \<noteq> 0 \<longrightarrow> sanitizeWeekdayValue (InRecord (weekday_string wd) k) =
            (if \<bar>k\<bar> \<le> 52 then Some (Nth wd k) else None))"
proof (intro conjI impI)
  assume "sign \<in> {[], ''+'', ''-''} \<and> list_all is_digit ds \<and> (length ds = 1 \<or> length ds = 2)"
  then show "sanitizeWeekdayValue (InString (sign @ ds @ weekday_string wd)) =
            (let n = token_ordinal sign ds
             in if 1 \<le> \<bar>n\<bar> \<and> \<bar>n\<bar> \<le> 53 then Some (Nth wd n) else None)"
    by (intro sanitize_token) simp_all
next
  show "sanitizeWeekdayValue (InString (weekday_string wd)) = Some (Simple wd)"
    by (rule sanitize_bare)
next
  assume "k \<noteq> 0"
  then show "sanitizeWeekdayValue (InRecord (weekday_string wd) k) =
            (if \<bar>k\<bar> \<le> 52 then Some (Nth wd k) else None)"
    unfolding sanitize_record by auto
qed

theorem byweekday_ordinal_range_witness:
  "''-'' \<in> {[], ''+'', ''-''} \<and> list_all is_digit ''53'' \<and> (52::int) \<noteq> 0
   \<and> sanitizeWeekdayValue (InString ''-53FR'') = Some (Nth FR (- 53))
   \<and> sanitizeWeekdayValue (InString ''FR'') = Some (Simple FR)
   \<and> sanitizeWeekdayValue (InRecord ''FR'' 52) = Some (Nth FR 52)"
  using byweekday_ordinal_range [of "''-''" "''53''" FR 52]
  by (simp add: token_ordinal_def is_digit_def digit_val_def char_code_def)

text \<open>
  Claim C9 as stated says that records with \<open>n = 53\<close> or \<open>n = -53\<close> are kept.  The
  record test is \<^verbatim>\<open>n > -53 && n < 53\<close>, so both are dropped.
\<close>

theorem byweekday_record_53_counterexample:
  "sanitizeWeekdayValue (InRecord ''MO'' 53) = None
   \<and> sanitizeWeekdayValue (InRecord ''MO'' (- 53)) = None"
  by (simp add: isWeekday_def weekday_of_string_def)

section \<open>The sanitizer\<close>

lemma set_unique [simp]: "set (unique xs) = set xs"
  by (induction xs rule: unique.induct) auto

lemma distinct_unique [simp]: "distinct (unique xs)"
  by (induction xs rule: unique.induct) auto

lemma unique_Nil_iff [simp]: "unique xs = [] \<longleftrightarrow> xs = []"
  by (cases xs) simp_all


lemma weekdayValueEq_iff [simp]: "weekdayValueEq a b \<longleftrightarrow> a = b"
  by (cases a; cases b) auto



lemma uniqueWeekdayValues_Nil_iff [simp]: "uniqueWeekdayValues vs = [] \<longleftrightarrow> vs = []"
  by (cases vs) (simp_all add: uniqueWeekdayValues_def)




lemma in_range_sanitizeNumberArray: "in_range (sanitizeNumberArray vals lo hi az) lo hi az"
  by (cases vals) (auto simp: in_range_def sanitizeNumberArray_def list_all_iff)




lemma sanitizeUntilDate_Inl_iff:
  "(\<exists>e. sanitizeUntilDate (in_until options) (in_dtstart options) = Inl e)
     \<longleftrightarrow> until_before_dtstart options"
  by (auto simp: sanitizeUntilDate_def until_before_dtstart_def split: option.splits)

lemma sanitizeUntilDate_Inr: "sanitizeUntilDate u s = Inr u' \<Longrightarrow> u' = u"
  by (auto simp: sanitizeUntilDate_def split: option.splits if_splits)

lemma sanitizeUntilDate_Inl: "sanitizeUntilDate u s = Inl e \<Longrightarrow> e = UntilBeforeDtstart"
  by (auto simp: sanitizeUntilDate_def split: option.splits if_splits)

text \<open>The sanitizer as a chain of its three checks.\<close>

lemma sanitizeRRuleOptions_eq:
  "sanitizeRRuleOptions options =
     (if until_before_dtstart options then Inl UntilBeforeDtstart
      else if count (parsed_of options) \<noteq> None \<and> in_until options \<noteq> None
      then Inl CountUntilExclusive
      else if \<not> validateBySetPos (parsed_of options) then Inl BySetPosAlone
      else Inr (parsed_of options))"
proof (cases "sanitizeUntilDate (in_until options) (in_dtstart options)")
  case (Inl e)
  then have "until_before_dtstart options" using sanitizeUntilDate_Inl_iff by blast
  moreover have "e = UntilBeforeDtstart" using Inl by (rule sanitizeUntilDate_Inl)
  ultimately show ?thesis using Inl by (simp add: sanitizeRRuleOptions_def)
next
  case (Inr u)
  then have n: "\<not> until_before_dtstart options"
    using sanitizeUntilDate_Inl_iff[of options] by auto
  have u: "u = in_until options" using Inr by (rule sanitizeUntilDate_Inr)
  show ?thesis using n
    by (simp add: sanitizeRRuleOptions_def Inr u parsed_of_def Let_def)
qed








section \<open>The generator loop\<close>

declare generateLoop.simps [simp del]

lemma yieldPeriod_emitted:
  "yieldPeriod s u c ds e y = (ds', e', y', r')
   \<Longrightarrow> e' = e + int (length ds') \<and> y' = (y \<or> ds' \<noteq> [])"
proof (induction ds arbitrary: e y ds' e' y' r')
  case Nil
  then show ?case by simp
next
  case (Cons d ds)
  show ?case
  proof (cases "compareDates d s < 0")
    case True
    with Cons.prems have "yieldPeriod s u c ds e y = (ds', e', y', r')" by simp
    then show ?thesis by (rule Cons.IH)
  next
    case nb: False
    show ?thesis
    proof (cases "case u of None \<Rightarrow> False | Some x \<Rightarrow> compareDates d x > 0")
      case True
      with nb Cons.prems show ?thesis by simp
    next
      case nu: False
      show ?thesis
      proof (cases "case c of None \<Rightarrow> False | Some k \<Rightarrow> e + 1 \<ge> k")
        case True
        with nb nu Cons.prems show ?thesis by auto
      next
        case nc: False
        obtain ds2 e2 y2 r2
          where rec: "yieldPeriod s u c ds (e + 1) True = (ds2, e2, y2, r2)"
          by (cases "yieldPeriod s u c ds (e + 1) True") auto
        from Cons.IH[OF rec] have ih: "e2 = e + 1 + int (length ds2)" "y2 = True" by auto
        from nb nu nc Cons.prems rec have "ds' = d # ds2" "e' = e2" "y' = y2" by auto
        with ih show ?thesis by auto
      qed
    qed
  qed
qed

lemma yieldPeriod_unbounded_no_return:
  "yieldPeriod s None None ds e y = (ds', e', y', r') \<Longrightarrow> \<not> r'"
proof (induction ds arbitrary: e y ds' e' y' r')
  case Nil
  then show ?case by simp
next
  case (Cons d ds)
  show ?case
  proof (cases "compareDates d s < 0")
    case True
    with Cons.prems have "yieldPeriod s None None ds e y = (ds', e', y', r')" by simp
    then show ?thesis by (rule Cons.IH)
  next
    case False
    obtain ds2 e2 y2 r2
      where rec: "yieldPeriod s None None ds (e + 1) True = (ds2, e2, y2, r2)"
      by (cases "yieldPeriod s None None ds (e + 1) True") auto
    from False Cons.prems rec have "r' = r2" by auto
    with Cons.IH[OF rec] show ?thesis by simp
  qed
qed

lemma loop_throw:
  "it > m \<Longrightarrow> generateLoop options m s i cur e it cep =
     \<lparr> yielded = [], ending = Thrown MaxIterationsExceeded, advances = 0, lastCursor = cur \<rparr>"
  by (subst generateLoop.simps) simp

lemma loop_step:
  "\<not> it > m
   \<Longrightarrow> yieldPeriod s (until options) (count options) (periodDates options cur) e False
         = (ds, e', y, r)
   \<Longrightarrow> generateLoop options m s i cur e it cep =
     (if r then \<lparr> yielded = ds, ending = Returned, advances = 0, lastCursor = cur \<rparr>
      else if \<not> y \<and> (if y then 0 else cep + 1) \<ge> 1000 \<and> e' = 0
      then \<lparr> yielded = ds, ending = Returned, advances = 0, lastCursor = cur \<rparr>
      else (let rr = generateLoop options m s i (advancePeriod cur (freq options) i) e'
                       (it + 1) (if y then 0 else cep + 1)
            in rr \<lparr> yielded := ds @ yielded rr, advances := Suc (advances rr) \<rparr>))"
  by (subst generateLoop.simps) (simp add: Let_def)

text \<open>
  The loop throws exactly when the iteration counter, which grows by one with each cursor
  advance, has passed the cap; the cursor at the end is the start cursor advanced
  \<open>advances\<close> times.
\<close>

lemma loop_cap:
  "(ending (generateLoop options m s i cur e it cep) = Thrown MaxIterationsExceeded
      \<longleftrightarrow> it + int (advances (generateLoop options m s i cur e it cep)) > m)
   \<and> (ending (generateLoop options m s i cur e it cep) = Returned
        \<or> ending (generateLoop options m s i cur e it cep) = Thrown MaxIterationsExceeded)
   \<and> it + int (advances (generateLoop options m s i cur e it cep)) \<le> max it (m + 1)
   \<and> lastCursor (generateLoop options m s i cur e it cep)
       = (advanceBy options i ^^ advances (generateLoop options m s i cur e it cep)) cur"
proof (induction options m s i cur e it cep rule: generateLoop.induct)
  case (1 options m s i cur e it cep)
  show ?case
  proof (cases "it > m")
    case True
    then show ?thesis by (simp add: loop_throw)
  next
    case False
    obtain ds e' y r
      where yp: "yieldPeriod s (until options) (count options) (periodDates options cur)
                   e False = (ds, e', y, r)"
      by (cases "yieldPeriod s (until options) (count options) (periodDates options cur)
                   e False") auto
    note st = loop_step[OF False yp, of i cep]
    show ?thesis
    proof (cases "r \<or> (\<not> y \<and> (if y then 0 else cep + 1) \<ge> 1000 \<and> e' = 0)")
      case True
      then show ?thesis using False unfolding st by auto
    next
      case nr: False
      let ?R = "generateLoop options m s i (advancePeriod cur (freq options) i) e' (it + 1)
                  (if y then 0 else cep + 1)"
      have ih: "(ending ?R = Thrown MaxIterationsExceeded
                   \<longleftrightarrow> it + 1 + int (advances ?R) > m)
          \<and> (ending ?R = Returned \<or> ending ?R = Thrown MaxIterationsExceeded)
          \<and> it + 1 + int (advances ?R) \<le> max (it + 1) (m + 1)
          \<and> lastCursor ?R
              = (advanceBy options i ^^ advances ?R) (advancePeriod cur (freq options) i)"
        by (rule "1.IH"[OF False yp[symmetric] refl refl _ refl]) (use nr in auto)
      have sw: "(advanceBy options i ^^ advances ?R) (advancePeriod cur (freq options) i)
                = advanceBy options i ((advanceBy options i ^^ advances ?R) cur)"
        by (simp add: funpow_swap1 advanceBy_def[symmetric])
      have eq: "generateLoop options m s i cur e it cep
                = ?R \<lparr> yielded := ds @ yielded ?R, advances := Suc (advances ?R) \<rparr>"
        using nr unfolding st by (auto simp: Let_def)
      show ?thesis unfolding eq using ih sw False by auto
    qed
  qed
qed

text \<open>
  Without COUNT and UNTIL the only \<^verbatim>\<open>return\<close> left is the empty-period detector, which
  needs \<^verbatim>\<open>emitted === 0\<close>: once something was yielded, the run can only end by the cap.
\<close>

lemma loop_unbounded_raises:
  "count options = None \<Longrightarrow> until options = None \<Longrightarrow> 0 \<le> e
   \<Longrightarrow> (e > 0 \<or> yielded (generateLoop options m s i cur e it cep) \<noteq> [])
   \<Longrightarrow> ending (generateLoop options m s i cur e it cep) = Thrown MaxIterationsExceeded"
proof (induction options m s i cur e it cep rule: generateLoop.induct)
  case (1 options m s i cur e it cep)
  show ?case
  proof (cases "it > m")
    case True
    then show ?thesis by (simp add: loop_throw)
  next
    case False
    obtain ds e' y r
      where yp: "yieldPeriod s (until options) (count options) (periodDates options cur)
                   e False = (ds, e', y, r)"
      by (cases "yieldPeriod s (until options) (count options) (periodDates options cur)
                   e False") auto
    note st = loop_step[OF False yp, of i cep]
    from yp "1.prems"(1,2) have nr: "\<not> r"
      using yieldPeriod_unbounded_no_return[of s "periodDates options cur" e False ds e' y r]
      by simp
    from yieldPeriod_emitted[OF yp] have em: "e' = e + int (length ds)" "y = (ds \<noteq> [])"
      by auto
    let ?R = "generateLoop options m s i (advancePeriod cur (freq options) i) e' (it + 1)
                (if y then 0 else cep + 1)"
    show ?thesis
    proof (cases "\<not> y \<and> (if y then 0 else cep + 1) \<ge> 1000 \<and> e' = 0")
      case True
      then have "ds = []" "e = 0" using em "1.prems"(3) by auto
      moreover have "yielded (generateLoop options m s i cur e it cep) = ds"
        using True nr unfolding st by auto
      ultimately show ?thesis using "1.prems"(4) by simp
    next
      case nd: False
      have eq: "generateLoop options m s i cur e it cep
                = ?R \<lparr> yielded := ds @ yielded ?R, advances := Suc (advances ?R) \<rparr>"
        using nr nd unfolding st by (auto simp: Let_def)
      have e0: "0 \<le> e'" using em "1.prems"(3) by simp
      have pos: "e' > 0 \<or> yielded ?R \<noteq> []"
        using "1.prems"(3,4) em unfolding eq by (cases ds) auto
      have "ending ?R = Thrown MaxIterationsExceeded"
        by (rule "1.IH"[OF False yp[symmetric] refl refl _ refl _ "1.prems"(1,2) e0 pos])
           (use nr nd in auto)
      then show ?thesis unfolding eq by simp
    qed
  qed
qed

text \<open>
  With nothing emitted and \<open>1000 - n\<close> empty periods counted so far, \<open>n\<close> further periods
  without an emission make the loop return with nothing yielded, provided the cap leaves
  room for these \<open>n\<close> periods.
\<close>

lemma loop_empty_periods:
  "e = 0 \<Longrightarrow> cep = 1000 - int n \<Longrightarrow> 0 < n \<Longrightarrow> n \<le> 1000
   \<Longrightarrow> it + int n - 1 \<le> m
   \<Longrightarrow> (\<forall>k < n. periodEmissions options s ((advanceBy options i ^^ k) cur) = [])
   \<Longrightarrow> yielded (generateLoop options m s i cur e it cep) = []
       \<and> ending (generateLoop options m s i cur e it cep) = Returned
       \<and> advances (generateLoop options m s i cur e it cep) < n"
proof (induction n arbitrary: cur it cep)
  case 0
  then show ?case by simp
next
  case (Suc n)
  have le: "\<not> it > m" using Suc.prems by simp
  obtain ds e' y r
    where yp: "yieldPeriod s (until options) (count options) (periodDates options cur)
                 e False = (ds, e', y, r)"
    by (cases "yieldPeriod s (until options) (count options) (periodDates options cur)
                 e False") auto
  note st = loop_step[OF le yp, of i cep]
  have "periodEmissions options s cur = []"
    using Suc.prems(6)[rule_format, of 0] by simp
  then have ds: "ds = []" using yp Suc.prems(1) by (simp add: periodEmissions_def)
  from yieldPeriod_emitted[OF yp] ds Suc.prems(1) have em: "e' = 0" "\<not> y" by auto
  show ?case
  proof (cases "r \<or> cep + 1 \<ge> 1000")
    case True
    then show ?thesis using em ds unfolding st by auto
  next
    case False
    then have n: "0 < n" using Suc.prems(2) by simp
    let ?R = "generateLoop options m s i (advancePeriod cur (freq options) i) e (it + 1)
                (cep + 1)"
    have eq: "generateLoop options m s i cur e it cep
              = ?R \<lparr> yielded := ds @ yielded ?R, advances := Suc (advances ?R) \<rparr>"
      using False em Suc.prems(1) unfolding st by (auto simp: Let_def)
    have per: "\<forall>k < n. periodEmissions options s
                 ((advanceBy options i ^^ k) (advancePeriod cur (freq options) i)) = []"
    proof (intro allI impI)
      fix k assume "k < n"
      then have "periodEmissions options s ((advanceBy options i ^^ Suc k) cur) = []"
        using Suc.prems(6)[rule_format, of "Suc k"] by simp
      then show "periodEmissions options s
                   ((advanceBy options i ^^ k) (advancePeriod cur (freq options) i)) = []"
        by (simp add: funpow_swap1 advanceBy_def[symmetric])
    qed
    have "yielded ?R = [] \<and> ending ?R = Returned \<and> advances ?R < n"
      by (rule Suc.IH[OF Suc.prems(1) _ n _ _ per]) (use Suc.prems in auto)
    then show ?thesis unfolding eq using ds by simp
  qed
qed

lemma compareDates_neg_iff [simp]: "compareDates a b < 0 \<longleftrightarrow> compare a b < 0"
  by (simp add: compareDates_def Let_def)

lemma compareDates_pos_iff [simp]: "compareDates a b > 0 \<longleftrightarrow> compare a b > 0"
  by (simp add: compareDates_def Let_def)

text \<open>What \<^verbatim>\<open>generateDates\<close> does before it enters its loop.\<close>

lemma generateDates_eq:
  "generateDates options m0 a =
     (case dtstart options of
        None \<Rightarrow> \<lparr> yielded = [], ending = Thrown DtstartRequired, advances = 0,
                   lastCursor = CalendarDate 0 0 0 \<rparr>
      | Some s \<Rightarrow>
          if interval_or_default options = 0
             \<or> (case until options of None \<Rightarrow> False | Some u \<Rightarrow> compare u s < 0)
          then \<lparr> yielded = [], ending = Returned, advances = 0, lastCursor = s \<rparr>
          else generateLoop options (maxIterations_or_default m0) s (interval_or_default options)
                 (firstCursor options s (interval_or_default options) a) 0 0 0)"
  by (auto simp: generateDates_def interval_or_default_def maxIterations_or_default_def
      firstCursor_def Let_def split: option.splits)

section \<open>Claims about the generator\<close>

text \<open>
  Claim C10.  The \<^verbatim>\<open>dtstart\<close> setter stores any value without looking at \<^verbatim>\<open>until\<close>; and
  when the rule's until is strictly earlier than its dtstart, the generator (with or without
  a seek target, under any cap) yields nothing and returns normally.
\<close>

theorem until_before_dtstart_yields_nothing:
  "until (r_options rule) = Some u \<and> compare u s < 0
   \<longrightarrow> (\<exists>rule'. set_dtstart rule (Some s) = Inr rule'
          \<and> dtstart (r_options rule') = Some s \<and> until (r_options rule') = Some u
          \<and> yielded (iterate rule') = [] \<and> ending (iterate rule') = Returned
          \<and> (\<forall>m a. yielded (generateDates (r_options rule') m a) = []
                   \<and> ending (generateDates (r_options rule') m a) = Returned))"
  by (simp add: set_dtstart_def iterate_def generateDates_eq)

theorem until_before_dtstart_yields_nothing_witness:
  "until (r_options until_2024) = Some (CalendarDate 2024 12 31)
   \<and> compare (CalendarDate 2024 12 31) (CalendarDate 2025 6 1) < 0
   \<and> (\<exists>rule'. set_dtstart until_2024 (Some (CalendarDate 2025 6 1)) = Inr rule'
          \<and> yielded (iterate rule') = [] \<and> ending (iterate rule') = Returned)"
proof -
  have u: "until (r_options until_2024) = Some (CalendarDate 2024 12 31)"
    by (simp add: until_2024_def plain_rule_def)
  have c: "compare (CalendarDate 2024 12 31) (CalendarDate 2025 6 1) < 0"
    by (simp add: toJulianDay_def gregorianToJulianDay_def isLeapYear_def)
  from until_before_dtstart_yields_nothing
         [of until_2024 "CalendarDate 2024 12 31" "CalendarDate 2025 6 1"] u c
  show ?thesis by blast
qed

lemma walkedDates_0 [simp]: "walkedDates options s i cur 0 = []"
  by (simp add: walkedDates_def)

lemma walkedDates_Suc_front:
  "walkedDates options s i cur (Suc n)
     = periodKept options s cur @ walkedDates options s i (advancePeriod cur (freq options) i) n"
proof -
  have "[0..<Suc n] = 0 # map Suc [0..<n]" by (simp add: upt_conv_Cons map_Suc_upt)
  then show ?thesis
    by (simp add: walkedDates_def comp_def funpow_swap1 advanceBy_def[symmetric] del: upt_Suc)
qed

lemma walkedDates_Suc_back:
  "walkedDates options s i cur (Suc n)
     = walkedDates options s i cur n @ periodKept options s ((advanceBy options i ^^ n) cur)"
  by (simp add: walkedDates_def)

lemma walkedDates_Nil_mono:
  "walkedDates options s i cur n = [] \<Longrightarrow> n' \<le> n \<Longrightarrow> walkedDates options s i cur n' = []"
proof (induction n)
  case 0
  then show ?case by simp
next
  case (Suc n)
  show ?case
  proof (cases "n' = Suc n")
    case True
    with Suc.prems show ?thesis by simp
  next
    case False
    with Suc.prems have "n' \<le> n" by simp
    moreover from Suc.prems(1) have "walkedDates options s i cur n = []"
      by (simp add: walkedDates_Suc_back)
    ultimately show ?thesis by (rule Suc.IH[rotated])
  qed
qed

text \<open>One period: it is left through \<open>return\<close> exactly when a candidate not before dtstart
  is past the until or reaches the count; otherwise all these candidates are yielded.\<close>

lemma yieldPeriod_kept:
  "yieldPeriod s (until options) (count options) ds e y = (out, e', y', r)
   \<Longrightarrow> kept = filter (\<lambda>date. \<not> compareDates date s < 0) ds
   \<Longrightarrow> prefix out kept
       \<and> (r \<longleftrightarrow> list_ex (past_until options) kept
                 \<or> (case count options of None \<Rightarrow> False
                     | Some c \<Rightarrow> kept \<noteq> [] \<and> e + int (length kept) \<ge> c))
       \<and> (\<not> r \<longrightarrow> out = kept)"
proof (induction ds arbitrary: e y out e' y' r kept)
  case Nil
  then show ?case by (auto split: option.splits)
next
  case (Cons d ds)
  let ?K = "filter (\<lambda>date. \<not> compareDates date s < 0) ds"
  show ?case
  proof (cases "compareDates d s < 0")
    case True
    with Cons.prems have "yieldPeriod s (until options) (count options) ds e y = (out, e', y', r)"
      and "kept = ?K" by simp_all
    then show ?thesis by (rule Cons.IH)
  next
    case nb: False
    then have k: "kept = d # ?K" using Cons.prems(2) by simp
    show ?thesis
    proof (cases "past_until options d")
      case True
      then have "out = []" "r" using nb Cons.prems(1) by (auto simp: past_until_def)
      then show ?thesis using True k by simp
    next
      case nu: False
      then have nu': "\<not> (case until options of None \<Rightarrow> False | Some u \<Rightarrow> compareDates d u > 0)"
        by (simp add: past_until_def)
      show ?thesis
      proof (cases "case count options of None \<Rightarrow> False | Some c \<Rightarrow> e + 1 \<ge> c")
        case True
        then have "out = [d]" "r" using nb nu' Cons.prems(1) by auto
        moreover from True have "case count options of None \<Rightarrow> False
            | Some c \<Rightarrow> kept \<noteq> [] \<and> e + int (length kept) \<ge> c"
          using k by (auto split: option.splits)
        ultimately show ?thesis using k by simp
      next
        case nc: False
        obtain ds2 e2 y2 r2
          where rec: "yieldPeriod s (until options) (count options) ds (e + 1) True
                        = (ds2, e2, y2, r2)"
          by (cases "yieldPeriod s (until options) (count options) ds (e + 1) True") auto
        note ih = Cons.IH[OF rec refl]
        from nb nu' nc Cons.prems(1) rec have o: "out = d # ds2" "r = r2" by auto
        have c: "(case count options of None \<Rightarrow> False
                  | Some c \<Rightarrow> kept \<noteq> [] \<and> e + int (length kept) \<ge> c)
             \<longleftrightarrow> (case count options of None \<Rightarrow> False
                  | Some c \<Rightarrow> ?K \<noteq> [] \<and> e + 1 + int (length ?K) \<ge> c)"
          using nc k by (auto split: option.splits)
        show ?thesis unfolding c using ih o k nu by auto
      qed
    qed
  qed
qed

text \<open>
  The loop against the walk of the periods: what it yields is an initial part of the dates
  of the periods the cap leaves room for, and it raises exactly when no stop condition is
  met among them.
\<close>

lemma loop_walk:
  "0 \<le> e \<Longrightarrow> it \<le> m + 1
   \<Longrightarrow> prefix (yielded (generateLoop options m s i cur e it cep))
         (walkedDates options s i cur (nat (m + 1 - it)))
     \<and> (ending (generateLoop options m s i cur e it cep) = Thrown MaxIterationsExceeded
          \<longleftrightarrow> \<not> list_ex (past_until options) (walkedDates options s i cur (nat (m + 1 - it)))
             \<and> \<not> (case count options of None \<Rightarrow> False
                    | Some c \<Rightarrow> walkedDates options s i cur (nat (m + 1 - it)) \<noteq> []
                        \<and> e + int (length (walkedDates options s i cur (nat (m + 1 - it)))) \<ge> c)
             \<and> \<not> (e = 0 \<and> (\<exists>k < nat (m + 1 - it). cep + int k + 1 \<ge> 1000
                                  \<and> walkedDates options s i cur (Suc k) = [])))
     \<and> (ending (generateLoop options m s i cur e it cep) = Thrown MaxIterationsExceeded
          \<longrightarrow> yielded (generateLoop options m s i cur e it cep)
                = walkedDates options s i cur (nat (m + 1 - it)))"
proof (induction options m s i cur e it cep rule: generateLoop.induct)
  case (1 options m s i cur e it cep)
  show ?case
  proof (cases "it > m")
    case True
    with "1.prems" have "nat (m + 1 - it) = 0" by simp
    then show ?thesis using True by (simp add: loop_throw split: option.splits)
  next
    case False
    define n' where "n' = nat (m + 1 - (it + 1))"
    have n: "nat (m + 1 - it) = Suc n'" using False by (simp add: n'_def)
    define cur' where "cur' = advancePeriod cur (freq options) i"
    define K where "K = periodKept options s cur"
    define W' where "W' = walkedDates options s i cur' n'"
    have W: "walkedDates options s i cur (Suc n') = K @ W'"
      by (simp add: walkedDates_Suc_front K_def W'_def cur'_def)
    have Wk: "walkedDates options s i cur (Suc k) = K @ walkedDates options s i cur' k" for k
      by (simp add: walkedDates_Suc_front K_def cur'_def)
    obtain ds e' y r
      where yp: "yieldPeriod s (until options) (count options) (periodDates options cur)
                   e False = (ds, e', y, r)"
      by (cases "yieldPeriod s (until options) (count options) (periodDates options cur)
                   e False") auto
    note st = loop_step[OF False yp, of i cep]
    from yieldPeriod_kept[OF yp, of K] have
      pk: "prefix ds K"
      and rk: "r \<longleftrightarrow> list_ex (past_until options) K
                 \<or> (case count options of None \<Rightarrow> False
                     | Some c \<Rightarrow> K \<noteq> [] \<and> e + int (length K) \<ge> c)"
      and nk: "\<not> r \<Longrightarrow> ds = K"
      by (simp_all add: K_def periodKept_def)
    from yieldPeriod_emitted[OF yp] have em: "e' = e + int (length ds)" "y = (ds \<noteq> [])"
      by auto
    let ?L = "generateLoop options m s i cur e it cep"
    show ?thesis
    proof (cases r)
      case True
      then have L: "yielded ?L = ds" "ending ?L = Returned" unfolding st by simp_all
      have "list_ex (past_until options) (K @ W')
            \<or> (case count options of None \<Rightarrow> False
                | Some c \<Rightarrow> K @ W' \<noteq> [] \<and> e + int (length (K @ W')) \<ge> c)"
        using True rk by (auto split: option.splits)
      then show ?thesis unfolding n W L using pk by (auto split: option.splits)
    next
      case nr: False
      then have dk: "ds = K" by (rule nk)
      have ek: "e' = e + int (length K)" "y = (K \<noteq> [])" using em dk by simp_all
      have nA: "\<not> list_ex (past_until options) K"
        "\<not> (case count options of None \<Rightarrow> False
             | Some c \<Rightarrow> K \<noteq> [] \<and> e + int (length K) \<ge> c)"
        using nr rk by simp_all
      show ?thesis
      proof (cases "K = [] \<and> cep + 1 \<ge> 1000 \<and> e = 0")
        case True
        then have L: "yielded ?L = []" "ending ?L = Returned"
          using nr ek dk unfolding st by simp_all
        have "e = 0 \<and> (\<exists>k < Suc n'. cep + int k + 1 \<ge> 1000
                          \<and> walkedDates options s i cur (Suc k) = [])"
          using True by (intro conjI exI[of _ 0]) (simp_all add: Wk)
        then show ?thesis unfolding n L by simp
      next
        case nd: False
        define cep' where "cep' = (if y then 0 else cep + 1)"
        let ?R = "generateLoop options m s i cur' e' (it + 1) cep'"
        have nd': "\<not> (\<not> y \<and> (if y then 0 else cep + 1) \<ge> 1000 \<and> e' = 0)"
          using nd ek "1.prems"(1) by auto
        have eq: "?L = ?R \<lparr> yielded := K @ yielded ?R, advances := Suc (advances ?R) \<rparr>"
          using nr nd' dk unfolding st by (auto simp: Let_def cur'_def cep'_def)
        have e0: "0 \<le> e'" using ek "1.prems"(1) by simp
        have it1: "it + 1 \<le> m + 1" using False by simp
        have ih: "prefix (yielded ?R) W'
          \<and> (ending ?R = Thrown MaxIterationsExceeded
               \<longleftrightarrow> \<not> list_ex (past_until options) W'
                  \<and> \<not> (case count options of None \<Rightarrow> False
                         | Some c \<Rightarrow> W' \<noteq> [] \<and> e' + int (length W') \<ge> c)
                  \<and> \<not> (e' = 0 \<and> (\<exists>k < n'. cep' + int k + 1 \<ge> 1000
                                       \<and> walkedDates options s i cur' (Suc k) = [])))
          \<and> (ending ?R = Thrown MaxIterationsExceeded \<longrightarrow> yielded ?R = W')"
          unfolding W'_def n'_def cur'_def cep'_def
          by (rule "1.IH"[OF False yp[symmetric] refl refl _ refl _ e0 it1]) (use nr nd' in auto)
        have c1: "list_ex (past_until options) (K @ W') \<longleftrightarrow> list_ex (past_until options) W'"
          using nA(1) by simp
        have c2: "(case count options of None \<Rightarrow> False
                   | Some c \<Rightarrow> K @ W' \<noteq> [] \<and> e + int (length (K @ W')) \<ge> c)
              \<longleftrightarrow> (case count options of None \<Rightarrow> False
                   | Some c \<Rightarrow> W' \<noteq> [] \<and> e' + int (length W') \<ge> c)"
          using nA(2) ek(1) by (cases "W' = []") (auto split: option.splits)
        have c3: "(e = 0 \<and> (\<exists>k < Suc n'. cep + int k + 1 \<ge> 1000
                               \<and> walkedDates options s i cur (Suc k) = []))
              \<longleftrightarrow> (e' = 0 \<and> (\<exists>k < n'. cep' + int k + 1 \<ge> 1000
                               \<and> walkedDates options s i cur' (Suc k) = []))"
        proof (cases "K = []")
          case False
          then have "e' \<noteq> 0" using ek(1) "1.prems"(1) by (cases K) auto
          then show ?thesis using False by (simp add: Wk)
        next
          case True
          then have s: "e' = e" "cep' = cep + 1" using ek by (simp_all add: cep'_def)
          show ?thesis
          proof (cases "e = 0")
            case False
            then show ?thesis using s by simp
          next
            case e: True
            with nd True have lt: "cep + 1 < 1000" by simp
            have "(\<exists>k < Suc n'. cep + int k + 1 \<ge> 1000 \<and> walkedDates options s i cur' k = [])
                \<longleftrightarrow> (\<exists>k < n'. cep + 1 + int k + 1 \<ge> 1000
                            \<and> walkedDates options s i cur' (Suc k) = [])"
            proof
              assume "\<exists>k < Suc n'. cep + int k + 1 \<ge> 1000 \<and> walkedDates options s i cur' k = []"
              then obtain k where k: "k < Suc n'" "cep + int k + 1 \<ge> 1000"
                "walkedDates options s i cur' k = []" by blast
              with lt obtain j where "k = Suc j" by (cases k) auto
              with k show "\<exists>k < n'. cep + 1 + int k + 1 \<ge> 1000
                            \<and> walkedDates options s i cur' (Suc k) = []"
                by (intro exI[of _ j]) auto
            next
              assume "\<exists>k < n'. cep + 1 + int k + 1 \<ge> 1000
                            \<and> walkedDates options s i cur' (Suc k) = []"
              then obtain j where "j < n'" "cep + 1 + int j + 1 \<ge> 1000"
                "walkedDates options s i cur' (Suc j) = []" by blast
              then show "\<exists>k < Suc n'. cep + int k + 1 \<ge> 1000 \<and> walkedDates options s i cur' k = []"
                by (intro exI[of _ "Suc j"]) auto
            qed
            then show ?thesis using e s True by (simp add: Wk)
          qed
        qed
        have en: "ending ?L = ending ?R" "yielded ?L = K @ yielded ?R" unfolding eq by simp_all
        show ?thesis unfolding n W en c1 c2 c3 using ih by simp
      qed
    qed
  qed
qed

lemma detector_fires_iff:
  "(\<exists>k < n. int k + 1 \<ge> 1000 \<and> walkedDates options s i cur (Suc k) = [])
     \<longleftrightarrow> detector_fires options s i cur n"
proof
  assume "\<exists>k < n. int k + 1 \<ge> 1000 \<and> walkedDates options s i cur (Suc k) = []"
  then obtain k where k: "k < n" "int k + 1 \<ge> 1000" "walkedDates options s i cur (Suc k) = []"
    by blast
  then have "1000 \<le> Suc k" by simp
  from walkedDates_Nil_mono[OF k(3) this] k(1,2) show "detector_fires options s i cur n"
    by (simp add: detector_fires_def)
next
  assume "detector_fires options s i cur n"
  then have "999 < n" "walkedDates options s i cur (Suc 999) = []"
    by (simp_all add: detector_fires_def)
  then show "\<exists>k < n. int k + 1 \<ge> 1000 \<and> walkedDates options s i cur (Suc k) = []"
    by (intro exI[of _ 999]) simp
qed

lemma generateDates_walk:
  assumes "dtstart options = Some s" "interval_or_default options \<noteq> 0"
    "\<not> (case until options of None \<Rightarrow> False | Some u \<Rightarrow> compare u s < 0)" "0 \<le> m"
  shows "ending (generateDates options (Some m) a) = Thrown MaxIterationsExceeded
           \<longleftrightarrow> \<not> stops_within options s (interval_or_default options)
                    (firstCursor options s (interval_or_default options) a) (Suc (nat m))"
    and "ending (generateDates options (Some m) a) = Thrown MaxIterationsExceeded
           \<Longrightarrow> yielded (generateDates options (Some m) a)
                 = walkedDates options s (interval_or_default options)
                     (firstCursor options s (interval_or_default options) a) (Suc (nat m))"
    and "prefix (yielded (generateDates options (Some m) a))
           (walkedDates options s (interval_or_default options)
              (firstCursor options s (interval_or_default options) a) (Suc (nat m)))"
    and "ending (generateDates options (Some m) a) = Thrown MaxIterationsExceeded
           \<Longrightarrow> lastCursor (generateDates options (Some m) a)
                 = (advanceBy options (interval_or_default options) ^^ Suc (nat m))
                     (firstCursor options s (interval_or_default options) a)"
proof -
  let ?i = "interval_or_default options"
  let ?c = "firstCursor options s ?i a"
  have eq: "generateDates options (Some m) a = generateLoop options m s ?i ?c 0 0 0"
    using assms(1-3) by (simp add: generateDates_eq maxIterations_or_default_def)
  have n: "nat (m + 1 - 0) = Suc (nat m)" using assms(4) by simp
  note w = loop_walk[of 0 0 m options s ?i ?c 0, unfolded n]
  have le: "(0::int) \<le> 0" "0 \<le> m + 1" using assms(4) by simp_all
  note w' = w[OF le]
  show "ending (generateDates options (Some m) a) = Thrown MaxIterationsExceeded
           \<longleftrightarrow> \<not> stops_within options s ?i ?c (Suc (nat m))"
    unfolding eq stops_within_def count_reached_def detector_fires_iff[symmetric]
    using w' by (simp split: option.splits)
  show "ending (generateDates options (Some m) a) = Thrown MaxIterationsExceeded
           \<Longrightarrow> yielded (generateDates options (Some m) a) = walkedDates options s ?i ?c (Suc (nat m))"
    unfolding eq using w' by simp
  show "prefix (yielded (generateDates options (Some m) a)) (walkedDates options s ?i ?c (Suc (nat m)))"
    unfolding eq using w' by simp
  assume t: "ending (generateDates options (Some m) a) = Thrown MaxIterationsExceeded"
  note lc = loop_cap[of options m s ?i ?c 0 0 0]
  from lc t[unfolded eq] assms(4)
  have "int (advances (generateLoop options m s ?i ?c 0 0 0)) = m + 1" by auto
  then have "advances (generateLoop options m s ?i ?c 0 0 0) = Suc (nat m)"
    using assms(4) by (simp add: nat_eq_iff Suc_nat_eq_nat_zadd1 flip: nat_int)
  then show "lastCursor (generateDates options (Some m) a) = (advanceBy options ?i ^^ Suc (nat m)) ?c"
    unfolding eq using lc by simp
qed

lemma generateDates_no_loop:
  "dtstart options = None \<or> interval_or_default options = 0
     \<or> (\<exists>s u. dtstart options = Some s \<and> until options = Some u \<and> compare u s < 0)
   \<Longrightarrow> ending (generateDates options m0 a) \<noteq> Thrown MaxIterationsExceeded
       \<and> yielded (generateDates options m0 a) = []"
  by (auto simp: generateDates_eq split: option.splits)

text \<open>
  Claim C7.  Without an override the cap is 10,000.  Under a cap \<open>m \<ge> 1\<close> (the setter
  admits no other) a generator that is pulled to its end walks the periods from its first
  cursor on, yielding their dates, and raises \<^verbatim>\<open>Max iterations exceeded\<close> exactly when none
  of the first \<open>m + 1\<close> periods ends the run (by a date after the UNTIL, by reaching the
  COUNT, or by the empty-period detector): then it has yielded exactly the dates of these
  \<open>m + 1\<close> periods, its cursor has been advanced \<open>m + 1\<close> times, which is once more than
  the cap, and it stands \<open>m + 1\<close> periods after the first cursor.  In every case the dates
  yielded are an initial part of the dates of these periods, the run ends with that error
  exactly when the number of cursor advances has exceeded \<open>m\<close>, and never advances more
  than \<open>m + 1\<close> times; a rule with neither COUNT nor UNTIL that yields anything at all
  does end that way; a rule without dtstart, with interval 0 or with its until before its
  dtstart yields nothing and does not.  The setter rejects every value below 1 and stores
  every value from 1 on.
\<close>

theorem max_iterations_cap:
  "generateDates options None a = generateDates options (Some 10000) a
   \<and> (1 \<le> m \<longrightarrow>
        (ending (generateDates options (Some m) a) = Thrown MaxIterationsExceeded
           \<longleftrightarrow> int (advances (generateDates options (Some m) a)) > m)
        \<and> int (advances (generateDates options (Some m) a)) \<le> m + 1)
   \<and> (count options = None \<and> until options = None
        \<and> yielded (generateDates options (Some m) a) \<noteq> []
        \<longrightarrow> ending (generateDates options (Some m) a) = Thrown MaxIterationsExceeded)
   \<and> (1 \<le> m \<and> dtstart options = Some s \<and> interval_or_default options \<noteq> 0
        \<and> \<not> (case until options of None \<Rightarrow> False | Some u \<Rightarrow> compare u s < 0)
        \<longrightarrow> (ending (generateDates options (Some m) a) = Thrown MaxIterationsExceeded
               \<longleftrightarrow> \<not> stops_within options s (interval_or_default options)
                        (firstCursor options s (interval_or_default options) a) (Suc (nat m)))
            \<and> (ending (generateDates options (Some m) a) = Thrown MaxIterationsExceeded
                 \<longrightarrow> yielded (generateDates options (Some m) a)
                       = walkedDates options s (interval_or_default options)
                           (firstCursor options s (interval_or_default options) a)
                           (Suc (nat m))
                     \<and> lastCursor (generateDates options (Some m) a)
                       = (advanceBy options (interval_or_default options) ^^ Suc (nat m))
                           (firstCursor options s (interval_or_default options) a))
            \<and> prefix (yielded (generateDates options (Some m) a))
                 (walkedDates options s (interval_or_default options)
                    (firstCursor options s (interval_or_default options) a) (Suc (nat m))))
   \<and> ((case dtstart options of
          None \<Rightarrow> True
        | Some s' \<Rightarrow> interval_or_default options = 0
            \<or> (case until options of None \<Rightarrow> False | Some u \<Rightarrow> compare u s' < 0))
        \<longrightarrow> ending (generateDates options (Some m) a) \<noteq> Thrown MaxIterationsExceeded
            \<and> yielded (generateDates options (Some m) a) = [])
   \<and> (v < 1 \<longrightarrow> set_maxIterations rule (Some v) = Inl MaxIterationsBelowOne)
   \<and> (1 \<le> v \<longrightarrow> set_maxIterations rule (Some v) = Inr (rule \<lparr> r_maxIterations := Some v \<rparr>))"
proof (intro conjI impI)
  have "maxIterations_or_default None = maxIterations_or_default (Some 10000)"
    by (simp add: maxIterations_or_default_def)
  then show "generateDates options None a = generateDates options (Some 10000) a"
    by (simp only: generateDates_eq)
next
  assume m: "1 \<le> m"
  show "ending (generateDates options (Some m) a) = Thrown MaxIterationsExceeded
           \<longleftrightarrow> int (advances (generateDates options (Some m) a)) > m"
    using m loop_cap[of options m _ "interval_or_default options" _ 0 0 0]
    by (auto simp: generateDates_eq maxIterations_or_default_def split: option.splits)
next
  assume m: "1 \<le> m"
  show "int (advances (generateDates options (Some m) a)) \<le> m + 1"
    using m loop_cap[of options m _ "interval_or_default options" _ 0 0 0]
    by (auto simp: generateDates_eq maxIterations_or_default_def split: option.splits)
next
  assume h: "count options = None \<and> until options = None
        \<and> yielded (generateDates options (Some m) a) \<noteq> []"
  show "ending (generateDates options (Some m) a) = Thrown MaxIterationsExceeded"
  proof (cases "dtstart options")
    case None
    with h show ?thesis by (simp add: generateDates_eq)
  next
    case (Some s)
    show ?thesis
    proof (cases "interval_or_default options = 0")
      case True
      with h Some show ?thesis by (simp add: generateDates_eq)
    next
      case False
      with h Some have eq: "generateDates options (Some m) a =
         generateLoop options m s (interval_or_default options)
           (firstCursor options s (interval_or_default options) a) 0 0 0"
        by (simp add: generateDates_eq maxIterations_or_default_def)
      show ?thesis unfolding eq
        by (rule loop_unbounded_raises) (use h eq in auto)
    qed
  qed
next
  assume h: "1 \<le> m \<and> dtstart options = Some s \<and> interval_or_default options \<noteq> 0
        \<and> \<not> (case until options of None \<Rightarrow> False | Some u \<Rightarrow> compare u s < 0)"
  then have m: "0 \<le> m" by simp
  note w = generateDates_walk[OF h[THEN conjunct2, THEN conjunct1]
      h[THEN conjunct2, THEN conjunct2, THEN conjunct1]
      h[THEN conjunct2, THEN conjunct2, THEN conjunct2] m, of a]
  show "ending (generateDates options (Some m) a) = Thrown MaxIterationsExceeded
           \<longleftrightarrow> \<not> stops_within options s (interval_or_default options)
                    (firstCursor options s (interval_or_default options) a) (Suc (nat m))"
    by (rule w(1))
  show "prefix (yielded (generateDates options (Some m) a))
          (walkedDates options s (interval_or_default options)
             (firstCursor options s (interval_or_default options) a) (Suc (nat m)))"
    by (rule w(3))
  assume t: "ending (generateDates options (Some m) a) = Thrown MaxIterationsExceeded"
  show "yielded (generateDates options (Some m) a)
          = walkedDates options s (interval_or_default options)
              (firstCursor options s (interval_or_default options) a) (Suc (nat m))"
    by (rule w(2)[OF t])
  show "lastCursor (generateDates options (Some m) a)
          = (advanceBy options (interval_or_default options) ^^ Suc (nat m))
              (firstCursor options s (interval_or_default options) a)"
    by (rule w(4)[OF t])
next
  assume h: "case dtstart options of
          None \<Rightarrow> True
        | Some s' \<Rightarrow> interval_or_default options = 0
            \<or> (case until options of None \<Rightarrow> False | Some u \<Rightarrow> compare u s' < 0)"
  then show "ending (generateDates options (Some m) a) \<noteq> Thrown MaxIterationsExceeded"
    by (auto simp: generateDates_eq split: option.splits)
  from h show "yielded (generateDates options (Some m) a) = []"
    by (auto simp: generateDates_eq split: option.splits)
next
  assume "v < 1"
  then show "set_maxIterations rule (Some v) = Inl MaxIterationsBelowOne"
    by (simp add: set_maxIterations_def)
next
  assume "1 \<le> v"
  then show "set_maxIterations rule (Some v) = Inr (rule \<lparr> r_maxIterations := Some v \<rparr>)"
    by (simp add: set_maxIterations_def)
qed

theorem max_iterations_cap_witness:
  "(1::int) \<le> 3 \<and> dtstart daily_forever = Some (CalendarDate 2025 1 1)
   \<and> interval_or_default daily_forever \<noteq> 0
   \<and> count daily_forever = None \<and> until daily_forever = None
   \<and> \<not> stops_within daily_forever (CalendarDate 2025 1 1) 1 (CalendarDate 2025 1 1) 4
   \<and> ending (generateDates daily_forever (Some 3) None) = Thrown MaxIterationsExceeded
   \<and> yielded (generateDates daily_forever (Some 3) None)
       = [CalendarDate 2025 1 1, CalendarDate 2025 1 2, CalendarDate 2025 1 3,
          CalendarDate 2025 1 4]
   \<and> lastCursor (generateDates daily_forever (Some 3) None) = CalendarDate 2025 1 5
   \<and> advances (generateDates daily_forever (Some 3) None) = 4
   \<and> (0::int) < 1 \<and> set_maxIterations daily_three_times (Some 0) = Inl MaxIterationsBelowOne
   \<and> set_maxIterations daily_three_times (Some 3)
       = Inr (daily_three_times \<lparr> r_maxIterations := Some 3 \<rparr>)"
proof -
  let ?s = "CalendarDate 2025 1 1"
  have d: "dtstart daily_forever = Some ?s" and c: "count daily_forever = None"
    and u: "until daily_forever = None"
    by (simp_all add: daily_forever_def plain_rule_def)
  have i: "interval_or_default daily_forever = 1" by code_simp
  have f: "firstCursor daily_forever ?s 1 None = ?s" by code_simp
  have w: "walkedDates daily_forever ?s 1 ?s 4
             = [CalendarDate 2025 1 1, CalendarDate 2025 1 2, CalendarDate 2025 1 3,
                CalendarDate 2025 1 4]" by code_simp
  have ns: "\<not> stops_within daily_forever ?s 1 ?s 4"
    by (simp add: stops_within_def detector_fires_def count_reached_def past_until_def
        list_ex_iff c u)
  have l: "(advanceBy daily_forever 1 ^^ 4) ?s = CalendarDate 2025 1 5" by code_simp
  have n: "Suc (nat 3) = 4" by simp
  note t = max_iterations_cap [of daily_forever None 3 ?s 0 daily_three_times]
  from t d u ns have e: "ending (generateDates daily_forever (Some 3) None) = Thrown MaxIterationsExceeded"
    by (simp add: i f n)
  from t d u e have y: "yielded (generateDates daily_forever (Some 3) None)
       = [CalendarDate 2025 1 1, CalendarDate 2025 1 2, CalendarDate 2025 1 3,
          CalendarDate 2025 1 4]"
    and lc: "lastCursor (generateDates daily_forever (Some 3) None) = CalendarDate 2025 1 5"
    by (simp_all add: i f n w l)
  from t e have a: "advances (generateDates daily_forever (Some 3) None) = 4" by simp
  from t have lo: "set_maxIterations daily_three_times (Some 0) = Inl MaxIterationsBelowOne"
    by simp
  from max_iterations_cap [of daily_forever None 3 ?s 3 daily_three_times]
  have hi: "set_maxIterations daily_three_times (Some 3)
              = Inr (daily_three_times \<lparr> r_maxIterations := Some 3 \<rparr>)"
    by simp
  from d c u i ns e y lc a lo hi show ?thesis by simp
qed

lemma daily_forever_cap_3: "generateDates daily_forever (Some 3) None =
   \<lparr> yielded = [CalendarDate 2025 1 1, CalendarDate 2025 1 2, CalendarDate 2025 1 3, CalendarDate 2025 1 4],
     ending = Thrown MaxIterationsExceeded, advances = 4, lastCursor = CalendarDate 2025 1 5 \<rparr>"
  by code_simp

text \<open>A period of \<^verbatim>\<open>MONTHLY;BYMONTHDAY=31;BYMONTH=4\<close> is empty wherever the cursor stands.\<close>

lemma april_31_period_empty: "periodDates april_31 c = []"
  by (simp add: periodDates_def april_31_def plain_rule_def expandMonthly_def or_empty_def
      getDaysInMonth_def days_in_month_def normalize_monthday_def sort_dates_def applyBySetPos_def Let_def)

text \<open>
  Claim C8.  When each of the first 1,000 periods of a run emits nothing (the cap leaving
  room for these 1,000 periods, as the default of 10,000 does), the generator returns
  normally and has yielded nothing; it does not raise.
\<close>

theorem empty_period_detector:
  "dtstart options = Some s \<and> interval_or_default options \<noteq> 0
   \<and> 999 \<le> maxIterations_or_default m0
   \<and> (\<forall>k < 1000. periodEmissions options s
          ((advanceBy options (interval_or_default options) ^^ k)
             (firstCursor options s (interval_or_default options) a)) = [])
   \<longrightarrow> yielded (generateDates options m0 a) = []
       \<and> ending (generateDates options m0 a) = Returned"
proof (intro impI)
  assume h: "dtstart options = Some s \<and> interval_or_default options \<noteq> 0
   \<and> 999 \<le> maxIterations_or_default m0
   \<and> (\<forall>k < 1000. periodEmissions options s
          ((advanceBy options (interval_or_default options) ^^ k)
             (firstCursor options s (interval_or_default options) a)) = [])"
  show "yielded (generateDates options m0 a) = [] \<and> ending (generateDates options m0 a) = Returned"
  proof (cases "case until options of None \<Rightarrow> False | Some u \<Rightarrow> compare u s < 0")
    case True
    with h show ?thesis by (simp add: generateDates_eq)
  next
    case False
    with h have eq: "generateDates options m0 a =
         generateLoop options (maxIterations_or_default m0) s (interval_or_default options)
           (firstCursor options s (interval_or_default options) a) 0 0 0"
      by (simp add: generateDates_eq)
    have "yielded (generateLoop options (maxIterations_or_default m0) s (interval_or_default options)
           (firstCursor options s (interval_or_default options) a) 0 0 0) = []
       \<and> ending (generateLoop options (maxIterations_or_default m0) s (interval_or_default options)
           (firstCursor options s (interval_or_default options) a) 0 0 0) = Returned
       \<and> advances (generateLoop options (maxIterations_or_default m0) s (interval_or_default options)
           (firstCursor options s (interval_or_default options) a) 0 0 0) < 1000"
      by (rule loop_empty_periods[where n = 1000]) (use h in auto)
    then show ?thesis unfolding eq by simp
  qed
qed

theorem empty_period_detector_witness:
  "dtstart april_31 = Some (CalendarDate 2025 1 31) \<and> interval_or_default april_31 \<noteq> 0
   \<and> 999 \<le> maxIterations_or_default None
   \<and> yielded (generateDates april_31 None None) = []
   \<and> ending (generateDates april_31 None None) = Returned"
proof -
  have d: "dtstart april_31 = Some (CalendarDate 2025 1 31)"
    by (simp add: april_31_def plain_rule_def)
  have i: "interval_or_default april_31 \<noteq> 0"
    by (simp add: april_31_def plain_rule_def interval_or_default_def)
  have m: "999 \<le> maxIterations_or_default None"
    by (simp add: maxIterations_or_default_def)
  have p: "\<forall>k < 1000. periodEmissions april_31 (CalendarDate 2025 1 31)
          ((advanceBy april_31 (interval_or_default april_31) ^^ k)
             (firstCursor april_31 (CalendarDate 2025 1 31) (interval_or_default april_31) None)) = []"
    by (simp add: periodEmissions_def april_31_period_empty)
  from empty_period_detector[of april_31 "CalendarDate 2025 1 31" None None] d i m p
  show ?thesis by simp
qed


section \<open>Runs of the generator on example rules\<close>

text \<open>
  Claim C1 at \<^verbatim>\<open>FREQ=MONTHLY;COUNT=4\<close> from 2025-01-31.  The cursor is advanced with the
  clamping month addition and is itself the candidate: February gets the 28th, and every
  later month the 28th as well.
\<close>

theorem monthly_from_jan_31_run:
  "yielded (generateDates monthly_from_jan_31 None None) =
     [CalendarDate 2025 1 31, CalendarDate 2025 2 28, CalendarDate 2025 3 28,
      CalendarDate 2025 4 28]"
  by code_simp

text \<open>
  Claim C2 at \<^verbatim>\<open>FREQ=MONTHLY;COUNT=3;BYMONTHDAY=15;BYSETPOS=1,-1\<close>, where both positions
  pick the one candidate of the month and it is yielded twice, and at
  \<^verbatim>\<open>FREQ=DAILY;COUNT=4;BYHOUR=10,9\<close>, where the time expansion is yielded in the order of
  the BYHOUR list.
\<close>

theorem emissions_not_strictly_increasing:
  "yielded (generateDates monthly_15th_first_and_last None None) =
     [CalendarDate 2025 1 15, CalendarDate 2025 1 15, CalendarDate 2025 2 15]
   \<and> \<not> strictly_increasing (yielded (generateDates monthly_15th_first_and_last None None))
   \<and> yielded (generateDates daily_at_10_and_9 None None) =
     [CalendarDateTime 2025 1 1 10 0 0 0, CalendarDateTime 2025 1 1 9 0 0 0,
      CalendarDateTime 2025 1 2 10 0 0 0, CalendarDateTime 2025 1 2 9 0 0 0]
   \<and> \<not> strictly_increasing (yielded (generateDates daily_at_10_and_9 None None))"
  by code_simp

text \<open>
  Claim C3 at the one-element candidate list of the same rule: \<^verbatim>\<open>applyBySetPos\<close> returns
  the candidate twice, the step as the specification words it returns it once.
\<close>

theorem applyBySetPos_keeps_duplicates:
  "applyBySetPos [CalendarDate 2025 1 15] monthly_15th_first_and_last
     = [CalendarDate 2025 1 15, CalendarDate 2025 1 15]
   \<and> applyBySetPos_spec [CalendarDate 2025 1 15] [1, - 1] = [CalendarDate 2025 1 15]"
  by code_simp

text \<open>
  Claim C4 at \<^verbatim>\<open>FREQ=DAILY;COUNT=3\<close> from 2025-01-01 and the target 2025-01-10.  The rule
  has three occurrences, all before the target.  The seeking generator starts its cursor
  at the target with \<^verbatim>\<open>emitted = 0\<close> and yields three more days.
\<close>

theorem after_with_seek_differs:
  "yielded (iterate daily_three_times) =
     [CalendarDate 2025 1 1, CalendarDate 2025 1 2, CalendarDate 2025 1 3]
   \<and> after_unseeked daily_three_times (CalendarDate 2025 1 10) False None = Inr []
   \<and> after daily_three_times (CalendarDate 2025 1 10) False None
       = Inr [CalendarDate 2025 1 11, CalendarDate 2025 1 12]"
  by code_simp


section \<open>The textual codec: parsing what the formatter writes\<close>

subsection \<open>Decimal numerals\<close>

lemma digit_char_code: "d < 10 \<Longrightarrow> char_code (digit_char d) = 48 + d"
proof -
  assume "d < 10"
  then consider "d = 0" | "d = 1" | "d = 2" | "d = 3" | "d = 4" | "d = 5" | "d = 6"
    | "d = 7" | "d = 8" | "d = 9" by atomize_elim arith
  then show ?thesis by cases (simp_all add: digit_char_def char_code_def)
qed

lemma is_digit_digit_char [simp]: "d < 10 \<Longrightarrow> is_digit (digit_char d)"
  by (simp add: is_digit_def digit_char_code)

lemma digit_val_digit_char [simp]: "d < 10 \<Longrightarrow> digit_val (digit_char d) = d"
  by (simp add: digit_val_def digit_char_code)

declare show_nat.simps [simp del]

lemma show_nat_digits: "list_all is_digit (show_nat n)"
  by (induction n rule: show_nat.induct) (subst show_nat.simps, simp)

lemma show_nat_not_Nil [simp]: "show_nat n \<noteq> []"
  by (subst show_nat.simps) simp

lemma digits_value_append:
  "list_all is_digit xs \<Longrightarrow> digits_value acc (xs @ ys) = digits_value (digits_value acc xs) ys"
  by (induction xs arbitrary: acc) simp_all

lemma digits_value_show_nat: "digits_value 0 (show_nat n) = n"
proof (induction n rule: show_nat.induct)
  case (1 n)
  show ?case
  proof (cases "n < 10")
    case True
    then show ?thesis by (subst show_nat.simps) simp
  next
    case False
    then have "digits_value 0 (show_nat n)
               = digits_value (digits_value 0 (show_nat (n div 10))) [digit_char (n mod 10)]"
      by (subst show_nat.simps) (simp add: digits_value_append show_nat_digits)
    also have "\<dots> = 10 * (n div 10) + n mod 10" using False "1.IH" by simp
    finally show ?thesis by simp
  qed
qed

lemma length_show_nat: "n < 10 ^ k \<Longrightarrow> 0 < k \<Longrightarrow> length (show_nat n) \<le> k"
proof (induction n arbitrary: k rule: show_nat.induct)
  case (1 n)
  show ?case
  proof (cases "n < 10")
    case True
    then show ?thesis using "1.prems" by (subst show_nat.simps) simp
  next
    case False
    then obtain j where k: "k = Suc j" "0 < j" using "1.prems" by (cases k; cases "k - 1") auto
    have "n div 10 < 10 ^ j" using "1.prems"(1) k by (simp add: less_mult_imp_div_less mult.commute)
    then have "length (show_nat (n div 10)) \<le> j" using "1.IH"[OF False _ k(2)] by simp
    then show ?thesis using False k by (subst show_nat.simps) simp
  qed
qed

subsection \<open>Characters of the written text, lists and separators\<close>

lemma token_char_code:
  "token_char c \<Longrightarrow> (48 \<le> char_code c \<and> char_code c \<le> 57)
     \<or> (65 \<le> char_code c \<and> char_code c \<le> 90) \<or> char_code c = 45"
  by (auto simp: token_char_def is_digit_def is_upper_def char_code_def)

lemma token_char_not_space: "token_char c \<Longrightarrow> \<not> is_space c"
  by (drule token_char_code) (auto simp: is_space_def)

lemma token_char_upper: "token_char c \<Longrightarrow> upper_char c = c"
proof -
  assume "token_char c"
  then have "\<not> is_lower c" by (auto dest!: token_char_code simp: is_lower_def)
  then show ?thesis by (simp only: upper_char_def if_False)
qed

lemma token_char_not_separator:
  assumes "token_char c"
  shows "c \<noteq> CHR '',''" "c \<noteq> CHR '';''" "c \<noteq> CHR ''=''" "c \<noteq> CHR '':''"
    "c \<noteq> CHR 0x0A" "c \<noteq> CHR 0x0D" "c \<noteq> CHR ''+''" "c \<noteq> CHR '' ''"
proof -
  note k = token_char_code[OF assms]
  show "c \<noteq> CHR '',''" using k by (auto simp: char_code_def)
  show "c \<noteq> CHR '';''" using k by (auto simp: char_code_def)
  show "c \<noteq> CHR ''=''" using k by (auto simp: char_code_def)
  show "c \<noteq> CHR '':''" using k by (auto simp: char_code_def)
  show "c \<noteq> CHR 0x0A" using k by (auto simp: char_code_def)
  show "c \<noteq> CHR 0x0D" using k by (auto simp: char_code_def)
  show "c \<noteq> CHR ''+''" using k by (auto simp: char_code_def)
  show "c \<noteq> CHR '' ''" using k by (auto simp: char_code_def)
qed

lemma token_char_not_terminator: "token_char c \<Longrightarrow> \<not> is_line_terminator c"
  by (simp add: is_line_terminator_def token_char_not_separator)

lemma dropWhile_none: "\<forall>c \<in> set xs. \<not> P c \<Longrightarrow> dropWhile P xs = xs"
  by (cases xs) auto

lemma trim_no_space: "\<forall>c \<in> set s. \<not> is_space c \<Longrightarrow> trim s = s"
  by (simp add: trim_def dropWhile_none)

lemma trim_tokens: "list_all token_char s \<Longrightarrow> trim s = s"
  by (rule trim_no_space) (auto simp: list_all_iff token_char_not_space)

lemma toUpperCase_tokens: "list_all token_char s \<Longrightarrow> toUpperCase s = s"
  by (induction s) (simp_all add: toUpperCase_def token_char_upper)

lemma show_nat_tokens: "list_all token_char (show_nat n)"
  using show_nat_digits[of n] by (simp add: list_all_iff token_char_def)

lemma show_int_tokens: "list_all token_char (show_int n)"
  using show_nat_tokens by (simp add: show_int_def token_char_def)

lemma show_int_not_Nil [simp]: "show_int n \<noteq> []"
  by (simp add: show_int_def)

lemma parseInteger_digits:
  "list_all is_digit ds \<Longrightarrow> ds \<noteq> [] \<Longrightarrow> parseInteger ds = Some (int (digits_value 0 ds))"
proof -
  assume a: "list_all is_digit ds" "ds \<noteq> []"
  then obtain c r where ds: "ds = c # r" and c: "is_digit c" by (cases ds) auto
  have "\<not> is_space c" "c \<noteq> CHR ''-''" "c \<noteq> CHR ''+''"
    using c by (auto simp: is_digit_def is_space_def char_code_def)
  then show ?thesis using c by (simp add: parseInteger_def ds)
qed

lemma parseInteger_show_int: "parseInteger (show_int n) = Some n"
proof (cases "n < 0")
  case True
  obtain c r where ds: "show_nat (nat (- n)) = c # r" by (cases "show_nat (nat (- n))") auto
  have c: "is_digit c" using show_nat_digits[of "nat (- n)"] ds by simp
  have sp: "\<not> is_space (CHR ''-'')" by (simp add: is_space_def char_code_def)
  have "digits_value 0 (c # r) = nat (- n)" using digits_value_show_nat[of "nat (- n)"] ds by simp
  then show ?thesis using True c sp by (simp add: parseInteger_def show_int_def ds del: digits_value.simps)
next
  case False
  then have "parseInteger (show_int n) = Some (int (digits_value 0 (show_nat (nat n))))"
    by (simp add: show_int_def parseInteger_digits show_nat_digits)
  then show ?thesis using False by (simp add: digits_value_show_nat)
qed

lemma digits_value_zeros: "digits_value 0 (replicate j (CHR ''0'') @ ds) = digits_value 0 ds"
proof (induction j)
  case 0
  show ?case by simp
next
  case (Suc j)
  have "is_digit (CHR ''0'')" "digit_val (CHR ''0'') = 0"
    by (simp_all add: is_digit_def digit_val_def char_code_def)
  then show ?case using Suc by simp
qed

lemma padZero_props:
  assumes "0 \<le> n" "n < 10 ^ k" "0 < k"
  shows "length (padZero n k) = k" "list_all is_digit (padZero n k)"
    "parseInteger (padZero n k) = Some n"
proof -
  have s: "show_int n = show_nat (nat n)" using assms(1) by (simp add: show_int_def)
  have "nat n < 10 ^ k" using assms(1,2) by (simp add: nat_less_iff)
  then have len: "length (show_nat (nat n)) \<le> k" using assms(3) by (rule length_show_nat)
  show l: "length (padZero n k) = k" using len by (simp add: padZero_def s Let_def)
  have z: "is_digit (CHR ''0'')" by (simp add: is_digit_def char_code_def)
  show d: "list_all is_digit (padZero n k)"
    using show_nat_digits[of "nat n"] z by (auto simp add: padZero_def s Let_def list_all_iff)
  have "padZero n k \<noteq> []" using l assms(3) by auto
  then have "parseInteger (padZero n k) = Some (int (digits_value 0 (padZero n k)))"
    using d by (simp add: parseInteger_digits)
  also have "digits_value 0 (padZero n k) = nat n"
    by (simp add: padZero_def s Let_def digits_value_zeros digits_value_show_nat)
  finally show "parseInteger (padZero n k) = Some n" using assms(1) by simp
qed

section \<open>split and join\<close>

lemma split_on_not_Nil [simp]: "split_on sep s \<noteq> []"
  by (induction s) (auto split: list.splits)

lemma split_on_none: "sep \<notin> set p \<Longrightarrow> split_on sep p = [p]"
  by (induction p) auto

lemma split_on_append: "sep \<notin> set p \<Longrightarrow> split_on sep (p @ sep # rest) = p # split_on sep rest"
  by (induction p) (auto split: list.splits)

lemma split_on_join:
  "parts \<noteq> [] \<Longrightarrow> \<forall>p \<in> set parts. sep \<notin> set p \<Longrightarrow> split_on sep (join [sep] parts) = parts"
proof (induction parts rule: induct_list012)
  case 1
  then show ?case by simp
next
  case (2 x)
  then show ?case by (simp add: split_on_none)
next
  case (3 x y zs)
  then have "split_on sep (join [sep] (y # zs)) = y # zs" by simp
  moreover have "sep \<notin> set x" using 3 by simp
  ultimately show ?case by (simp add: split_on_append)
qed

lemma set_join_subset: "set (join [sep] parts) \<subseteq> insert sep (\<Union> (set ` set parts))"
  by (induction parts rule: induct_list012) auto

lemma join_not_Nil: "parts \<noteq> [] \<Longrightarrow> \<forall>p \<in> set parts. p \<noteq> [] \<Longrightarrow> join [sep] parts \<noteq> []"
  by (induction parts rule: induct_list012) auto

lemma parseList_join:
  assumes "parts \<noteq> []" "\<forall>p \<in> set parts. p \<noteq> [] \<and> sep \<notin> set p \<and> (\<forall>c \<in> set p. \<not> is_space c)"
    "\<not> is_space sep"
  shows "parseList (join [sep] parts) sep = parts"
proof -
  have ns: "\<forall>c \<in> set (join [sep] parts). \<not> is_space c"
    using set_join_subset[of sep parts] assms(2,3) by auto
  have ne: "join [sep] parts \<noteq> []" using assms by (intro join_not_Nil) auto
  have t: "trim (join [sep] parts) = join [sep] parts" using ns by (rule trim_no_space)
  have sp: "split_on sep (join [sep] parts) = parts" using assms by (intro split_on_join) auto
  have m: "map trim parts = parts" using assms(2) by (intro map_idI trim_no_space) auto
  have f: "filter (\<lambda>item. item \<noteq> []) parts = parts" using assms(2) by (intro filter_True) auto
  show ?thesis by (simp add: parseList_def t ne sp m f)
qed

subsection \<open>Numbers, frequencies and weekdays read back\<close>

lemma comma_not_space: "\<not> is_space (CHR '','')" "\<not> is_space (CHR '';'')"
  by (simp_all add: is_space_def char_code_def)

lemma tokens_no_sep:
  assumes "list_all token_char p"
  shows "CHR '','' \<notin> set p" "CHR '';'' \<notin> set p" "CHR ''='' \<notin> set p"
    "\<forall>c \<in> set p. \<not> is_space c" "CHR 0x0A \<notin> set p" "CHR 0x0D \<notin> set p"
    "CHR '':'' \<notin> set p"
proof -
  have t: "\<And>c. c \<in> set p \<Longrightarrow> token_char c" using assms by (simp add: list_all_iff)
  show "CHR '','' \<notin> set p" using t token_char_not_separator(1) by blast
  show "CHR '';'' \<notin> set p" using t token_char_not_separator(2) by blast
  show "CHR ''='' \<notin> set p" using t token_char_not_separator(3) by blast
  show "\<forall>c \<in> set p. \<not> is_space c" using t token_char_not_space by blast
  show "CHR 0x0A \<notin> set p" using t token_char_not_separator(5) by blast
  show "CHR 0x0D \<notin> set p" using t token_char_not_separator(6) by blast
  show "CHR '':'' \<notin> set p" using t token_char_not_separator(4) by blast
qed

lemma map_filter_parseInteger_show_int:
  "List.map_filter parseInteger (map show_int l) = l"
  by (induction l) (simp_all add: List.map_filter_simps parseInteger_show_int)

lemma parseIntegerList_join:
  assumes "l \<noteq> []"
  shows "parseIntegerList (join '','' (map show_int l)) = l"
proof -
  have "parseList (join '','' (map show_int l)) (CHR '','') = map show_int l"
  proof (intro parseList_join)
    show "map show_int l \<noteq> []" using assms by simp
    show "\<forall>p \<in> set (map show_int l). p \<noteq> [] \<and> CHR '','' \<notin> set p \<and> (\<forall>c \<in> set p. \<not> is_space c)"
      using tokens_no_sep(1,4)[OF show_int_tokens] by auto
    show "\<not> is_space (CHR '','')" by (rule comma_not_space)
  qed
  then show ?thesis by (simp add: parseIntegerList_def map_filter_parseInteger_show_int)
qed

lemma numberLoop_ok:
  "list_all (\<lambda>n. \<not> (ez \<and> n = 0) \<and> lo \<le> n \<and> n \<le> hi) l \<Longrightarrow> numberLoop lo hi ez strict l = Inr l"
  by (induction l) auto

lemma unique_distinct: "distinct l \<Longrightarrow> unique l = l"
proof (induction l)
  case Nil
  show ?case by simp
next
  case (Cons x xs)
  then have "filter (\<lambda>y. y \<noteq> x) xs = xs" by (intro filter_True) auto
  with Cons show ?case by simp
qed

lemma parseRRuleNumberList_join:
  assumes "l \<noteq> []" "list_all (\<lambda>n. \<not> (ez \<and> n = 0) \<and> lo \<le> n \<and> n \<le> hi) l" "distinct l"
  shows "parseRRuleNumberList (join '','' (map show_int l)) lo hi ez strict = Inr l"
  using assms
  by (simp add: parseRRuleNumberList_def parseIntegerList_join numberLoop_ok unique_distinct)

lemma parsePositiveInteger_show_int: "0 < n \<Longrightarrow> parsePositiveInteger (show_int n) = Inr n"
  by (simp add: parsePositiveInteger_def parseInteger_show_int)

lemma frequency_string_tokens: "list_all token_char (frequency_string f)"
  by (cases f) (simp_all add: token_char_def is_upper_def char_code_def)

lemma frequency_of_string_frequency_string [simp]:
  "frequency_of_string (frequency_string f) = Some f"
  by (cases f) (simp_all add: frequency_of_string_def)

lemma frequency_string_not_Nil [simp]: "frequency_string f \<noteq> []"
  by (cases f) simp_all

lemma parseFrequency_frequency_string: "parseFrequency (frequency_string f) = Inr f"
  by (simp add: parseFrequency_def trim_tokens toUpperCase_tokens frequency_string_tokens)

lemma weekday_string_tokens: "list_all token_char (weekday_string w)"
  by (cases w) (simp_all add: token_char_def is_upper_def char_code_def)

lemma weekday_string_not_Nil [simp]: "weekday_string w \<noteq> []"
  by (cases w) simp_all

lemma parseWeekday_weekday_string: "parseWeekday (weekday_string w) = Inr w"
  by (simp add: parseWeekday_def trim_tokens toUpperCase_tokens weekday_string_tokens)

lemma parseWeekdayValue_bare: "parseWeekdayValue (weekday_string w) = Inr (Simple w)"
proof -
  have "match_weekday_token (weekday_string w) = Some (None, weekday_string w)"
    by (simp add: match_weekday_token_def)
  then show ?thesis
    by (simp add: parseWeekdayValue_def trim_tokens toUpperCase_tokens weekday_string_tokens)
qed

subsection \<open>Weekday terms read back\<close>

lemma parseWeekdayValue_token:
  assumes "sign \<in> {[], ''+'', ''-''}" "list_all is_digit ds" "length ds = 1 \<or> length ds = 2"
  shows "parseWeekdayValue (sign @ ds @ weekday_string wd) =
           (let n = token_ordinal sign ds in
            if n = 0 then Inl WeekdayOccurrenceZero
            else if n < -53 \<or> n > 53 then Inl WeekdayOccurrenceRange else Inr (Nth wd n))"
proof -
  have ne: "ds \<noteq> []" using assms(3) by auto
  note sh = token_shape[OF assms, of wd]
  show ?thesis
    unfolding parseWeekdayValue_def sh(1) Let_def
    by (simp add: sh(2) parseInteger_signed[OF assms(1) ne assms(2)] ne)
qed

lemma show_int_as_token:
  assumes "n \<noteq> 0" "- 53 \<le> n" "n \<le> 53"
  shows "\<exists>sign ds. show_int n = sign @ ds \<and> sign \<in> {[], ''+'', ''-''} \<and> list_all is_digit ds
           \<and> (length ds = 1 \<or> length ds = 2) \<and> token_ordinal sign ds = n"
proof -
  let ?ds = "show_nat (nat \<bar>n\<bar>)"
  have "nat \<bar>n\<bar> < 10 ^ 2" using assms by simp
  then have "length ?ds \<le> 2" by (rule length_show_nat) simp
  moreover have "?ds \<noteq> []" by simp
  ultimately have len: "length ?ds = 1 \<or> length ?ds = 2"
    by (cases ?ds) (auto simp: le_Suc_eq)
  show ?thesis
  proof (cases "n < 0")
    case True
    then have "show_int n = ''-'' @ ?ds" by (simp add: show_int_def abs_if)
    moreover have "token_ordinal ''-'' ?ds = n"
      using True by (simp add: token_ordinal_def digits_value_show_nat)
    ultimately show ?thesis using len show_nat_digits by blast
  next
    case False
    then have "show_int n = [] @ ?ds" by (simp add: show_int_def abs_if)
    moreover have "token_ordinal [] ?ds = n"
      using False by (simp add: token_ordinal_def digits_value_show_nat)
    ultimately show ?thesis using len show_nat_digits by blast
  qed
qed

lemma parseWeekdayValue_format:
  "printable_term t \<Longrightarrow> parseWeekdayValue (formatWeekdayValue t) = Inr t"
proof (cases t)
  case (Simple w)
  then show ?thesis by (simp add: parseWeekdayValue_bare)
next
  case (Nth w n)
  assume "printable_term t"
  with Nth have n: "n \<noteq> 0" "- 53 \<le> n" "n \<le> 53" by auto
  from show_int_as_token[OF n] obtain sign ds where
    s: "show_int n = sign @ ds" "sign \<in> {[], ''+'', ''-''}" "list_all is_digit ds"
       "length ds = 1 \<or> length ds = 2" "token_ordinal sign ds = n"
    by blast
  have "parseWeekdayValue (sign @ ds @ weekday_string w) = Inr (Nth w n)"
    using parseWeekdayValue_token[OF s(2,3,4), of w] n by (simp add: s(5))
  then show ?thesis using Nth n s(1) by simp
qed

lemma formatWeekdayValue_tokens: "list_all token_char (formatWeekdayValue t)"
  using show_int_tokens weekday_string_tokens by (cases t) auto

lemma formatWeekdayValue_not_Nil [simp]: "formatWeekdayValue t \<noteq> []"
  by (cases t) auto

lemma byDayLoop_format:
  "list_all printable_term l \<Longrightarrow> byDayLoop strict (map formatWeekdayValue l) = Inr l"
  by (induction l) (simp_all add: parseWeekdayValue_format)

lemma findIndex_Some_iff:
  "findIndex P xs = Some i \<longleftrightarrow> i < length xs \<and> P (xs ! i) \<and> (\<forall>j < i. \<not> P (xs ! j))"
proof (induction xs arbitrary: i)
  case Nil
  show ?case by simp
next
  case (Cons x xs)
  show ?case
  proof (cases "P x")
    case True
    then show ?thesis by (cases i) auto
  next
    case False
    show ?thesis
    proof (cases i)
      case 0
      with False show ?thesis by simp
    next
      case (Suc k)
      have "(\<forall>j < Suc k. \<not> P ((x # xs) ! j)) \<longleftrightarrow> (\<forall>j < k. \<not> P (xs ! j))"
        using False by (auto simp: less_Suc_eq_0_disj)
      then show ?thesis using False Suc Cons.IH[of k] by auto
    qed
  qed
qed

lemma uniqueWeekdayValues_distinct: "distinct l \<Longrightarrow> uniqueWeekdayValues l = l"
proof -
  assume d: "distinct l"
  have "filter (\<lambda>(index, v). findIndex (weekdayValueEq v) l = Some index) (enumerate 0 l)
        = enumerate 0 l"
  proof (intro filter_True ballI)
    fix p assume "p \<in> set (enumerate 0 l)"
    then have "fst p < length l" "l ! fst p = snd p"
      by (simp_all add: in_set_enumerate_eq)
    then obtain i where p: "p = (i, l ! i)" "i < length l"
      by (metis prod.collapse)
    have "findIndex (weekdayValueEq (l ! i)) l = Some i"
      unfolding findIndex_Some_iff using d p(2) by (auto simp: nth_eq_iff_index_eq)
    then show "case p of (index, v) \<Rightarrow> findIndex (weekdayValueEq v) l = Some index"
      by (simp add: p)
  qed
  then show ?thesis by (simp add: uniqueWeekdayValues_def)
qed

lemma distinct_uniqueWeekdayValues: "distinct (uniqueWeekdayValues vs)"
proof -
  let ?Q = "\<lambda>(index, v). findIndex (weekdayValueEq v) vs = Some index"
  have "inj_on snd (set (filter ?Q (enumerate 0 vs)))"
    by (rule inj_onI) auto
  moreover have "distinct (filter ?Q (enumerate 0 vs))"
    by (intro distinct_filter) (simp add: distinct_enumerate)
  ultimately show ?thesis by (simp add: uniqueWeekdayValues_def distinct_map)
qed

lemma parseRRuleByDay_format:
  assumes "l \<noteq> []" "list_all printable_term l" "distinct l"
  shows "parseRRuleByDay (join '','' (map formatWeekdayValue l)) strict = Inr l"
proof -
  have "parseList (join '','' (map formatWeekdayValue l)) (CHR '','') = map formatWeekdayValue l"
  proof (intro parseList_join)
    show "map formatWeekdayValue l \<noteq> []" using assms by simp
    show "\<forall>p \<in> set (map formatWeekdayValue l). p \<noteq> [] \<and> CHR '','' \<notin> set p \<and> (\<forall>c \<in> set p. \<not> is_space c)"
      using tokens_no_sep(1,4)[OF formatWeekdayValue_tokens] by auto
    show "\<not> is_space (CHR '','')" by (rule comma_not_space)
  qed
  then show ?thesis using assms
    by (simp add: parseRRuleByDay_def byDayLoop_format uniqueWeekdayValues_distinct)
qed

subsection \<open>Moments read back\<close>

lemma is_digit_token: "is_digit c \<Longrightarrow> token_char c"
  by (simp add: token_char_def)

lemma digits_tokens: "list_all is_digit s \<Longrightarrow> list_all token_char s"
  by (simp add: list_all_iff is_digit_token)

lemma T_Z_tokens: "token_char (CHR ''T'')" "token_char (CHR ''Z'')"
  by (simp_all add: token_char_def is_upper_def char_code_def)

lemma is_digit_not_Z: "is_digit c \<Longrightarrow> c \<noteq> CHR ''Z''"
  by (auto simp: is_digit_def char_code_def)

lemma days_in_month_le: "days_in_month y m \<le> 31"
  by (simp add: days_in_month_def)

lemma parse_ics_fields:
  assumes Y: "length Y = 4" "list_all is_digit Y" "parseInteger Y = Some y"
    and M: "length M = 2" "list_all is_digit M" "parseInteger M = Some m"
    and D: "length D = 2" "list_all is_digit D" "parseInteger D = Some d"
    and vd: "valid_date y m d"
  shows "parseICSDateValue (Y @ M @ D) = Inr (CalendarDate y m d)"
proof -
  let ?v = "Y @ M @ D"
  have tok: "list_all token_char ?v" using Y M D by (simp add: digits_tokens)
  have t: "trim ?v = ?v" using tok by (rule trim_tokens)
  have shape: "ics_date_shape ?v" using Y M D by (simp add: ics_date_shape_def)
  have s: "slice ?v 0 4 = Y" "slice ?v 4 6 = M" "slice ?v 6 8 = D" "slice ?v 9 11 = []"
    using Y M D by (simp_all add: slice_def)
  have n: "parseInteger [] = None" by (simp add: parseInteger_def)
  show ?thesis
    unfolding parseICSDateValue_def t Let_def s
    using shape vd by (simp add: Y M D n)
qed

lemma parse_ics_datetime_fields:
  assumes Y: "length Y = 4" "list_all is_digit Y" "parseInteger Y = Some y"
    and M: "length M = 2" "list_all is_digit M" "parseInteger M = Some m"
    and D: "length D = 2" "list_all is_digit D" "parseInteger D = Some d"
    and H: "length H = 2" "list_all is_digit H" "parseInteger H = Some h"
    and I: "length I = 2" "list_all is_digit I" "parseInteger I = Some mi"
    and S: "length S = 2" "list_all is_digit S" "parseInteger S = Some sec"
    and vd: "valid_date y m d" "valid_time h mi sec"
  shows "parseICSDateValue (Y @ M @ D @ ''T'' @ H @ I @ S) = Inr (CalendarDateTime y m d h mi sec 0)"
    and "parseICSDateValue ((Y @ M @ D) @ ''T'' @ (H @ I @ S) @ ''Z'') = Inr (ZonedDateTime y m d h mi sec 0)"
proof -
  let ?v = "Y @ M @ D @ ''T'' @ H @ I @ S"
  let ?z = "(Y @ M @ D) @ ''T'' @ (H @ I @ S) @ ''Z''"
  have tok: "list_all token_char ?v" "list_all token_char ?z"
    using Y M D H I S by (simp_all add: digits_tokens T_Z_tokens)
  have t: "trim ?v = ?v" "trim ?z = ?z" using tok by (simp_all add: trim_tokens)
  have shape: "ics_date_shape ?v" "ics_date_shape ?z"
    using Y M D H I S by (simp_all add: ics_date_shape_def slice_def nth_append)
  have s: "slice ?v 0 4 = Y" "slice ?v 4 6 = M" "slice ?v 6 8 = D"
          "slice ?v 9 11 = H" "slice ?v 11 13 = I" "slice ?v 13 15 = S"
    using Y M D H I S by (simp_all add: slice_def)
  have sz: "slice ?z 0 4 = Y" "slice ?z 4 6 = M" "slice ?z 6 8 = D"
          "slice ?z 9 11 = H" "slice ?z 11 13 = I" "slice ?z 13 15 = S"
    using Y M D H I S by (simp_all add: slice_def)
  obtain c where c: "last S = c" "is_digit c" using S(1,2) by (cases S rule: rev_cases) auto
  have l: "last ?v \<noteq> CHR ''Z''" using S(1) c is_digit_not_Z by (cases S) auto
  show "parseICSDateValue ?v = Inr (CalendarDateTime y m d h mi sec 0)"
    unfolding parseICSDateValue_def t Let_def s
    using shape vd l by (simp add: Y M D H I S)
  show "parseICSDateValue ?z = Inr (ZonedDateTime y m d h mi sec 0)"
    unfolding parseICSDateValue_def t Let_def sz
    using shape vd by (simp add: Y M D H I S)
qed

lemma parseICSDateValue_format:
  assumes "printable_moment v"
  shows "parseICSDateValue (formatICSDateValue v) = Inr v"
proof -
  from assms have vd: "valid_date (year v) (month v) (day v)"
    and vt: "valid_time (hour v) (minute v) (second v)" and ms: "millisecond v = 0"
    by (simp_all add: printable_moment_def)
  have dm: "day v \<le> 31" using vd days_in_month_le[of "year v" "month v"] by (simp add: valid_date_def)
  have y: "0 \<le> year v" "year v < 10 ^ 4" and m: "0 \<le> month v" "month v < 10 ^ 2"
    and d: "0 \<le> day v" "day v < 10 ^ 2"
    using vd dm by (simp_all add: valid_date_def)
  have h: "0 \<le> hour v" "hour v < 10 ^ 2" and i: "0 \<le> minute v" "minute v < 10 ^ 2"
    and s: "0 \<le> second v" "second v < 10 ^ 2"
    using vt by (simp_all add: valid_time_def)
  note Y = padZero_props[OF y]
  note M = padZero_props[OF m]
  note D = padZero_props[OF d]
  note H = padZero_props[OF h]
  note I = padZero_props[OF i]
  note S = padZero_props[OF s]
  show ?thesis
  proof (cases v)
    case (CalendarDate a b c)
    have "parseICSDateValue (padZero (year v) 4 @ padZero (month v) 2 @ padZero (day v) 2)
          = Inr (CalendarDate (year v) (month v) (day v))"
      by (rule parse_ics_fields) (simp_all add: Y M D vd)
    then show ?thesis using CalendarDate by (simp add: formatICSDateValue_def)
  next
    case (CalendarDateTime a b c e f g k)
    have "parseICSDateValue (padZero (year v) 4 @ padZero (month v) 2 @ padZero (day v) 2
             @ ''T'' @ padZero (hour v) 2 @ padZero (minute v) 2 @ padZero (second v) 2)
          = Inr (CalendarDateTime (year v) (month v) (day v) (hour v) (minute v) (second v) 0)"
      by (rule parse_ics_datetime_fields(1)) (simp_all add: Y M D H I S vd vt)
    then show ?thesis using CalendarDateTime ms by (simp add: formatICSDateValue_def)
  next
    case (ZonedDateTime a b c e f g k)
    have "parseICSDateValue ((padZero (year v) 4 @ padZero (month v) 2 @ padZero (day v) 2)
             @ ''T'' @ (padZero (hour v) 2 @ padZero (minute v) 2 @ padZero (second v) 2) @ ''Z'')
          = Inr (ZonedDateTime (year v) (month v) (day v) (hour v) (minute v) (second v) 0)"
      by (rule parse_ics_datetime_fields(2)) (simp_all add: Y M D H I S vd vt)
    then show ?thesis using ZonedDateTime ms by (simp add: formatICSDateValue_def)
  qed
qed

lemma formatICSDateValue_tokens:
  assumes "printable_moment v"
  shows "list_all token_char (formatICSDateValue v)" "formatICSDateValue v \<noteq> []"
proof -
  from assms have vd: "valid_date (year v) (month v) (day v)"
    and vt: "valid_time (hour v) (minute v) (second v)"
    by (simp_all add: printable_moment_def)
  have dm: "day v \<le> 31" using vd days_in_month_le[of "year v" "month v"] by (simp add: valid_date_def)
  have y: "0 \<le> year v" "year v < 10 ^ 4" and m: "0 \<le> month v" "month v < 10 ^ 2"
    and d: "0 \<le> day v" "day v < 10 ^ 2"
    using vd dm by (simp_all add: valid_date_def)
  have h: "0 \<le> hour v" "hour v < 10 ^ 2" and i: "0 \<le> minute v" "minute v < 10 ^ 2"
    and s: "0 \<le> second v" "second v < 10 ^ 2"
    using vt by (simp_all add: valid_time_def)
  have p: "list_all token_char (padZero (year v) 4)" "list_all token_char (padZero (month v) 2)"
    "list_all token_char (padZero (day v) 2)" "list_all token_char (padZero (hour v) 2)"
    "list_all token_char (padZero (minute v) 2)" "list_all token_char (padZero (second v) 2)"
    using padZero_props(2)[OF y] padZero_props(2)[OF m] padZero_props(2)[OF d]
      padZero_props(2)[OF h] padZero_props(2)[OF i] padZero_props(2)[OF s]
    by (simp_all add: digits_tokens)
  show "list_all token_char (formatICSDateValue v)"
    using p by (simp add: formatICSDateValue_def Let_def T_Z_tokens)
  have "length (padZero (year v) 4) = 4" using padZero_props(1)[OF y] by simp
  then have "padZero (year v) 4 \<noteq> []" by auto
  then show "formatICSDateValue v \<noteq> []" by (simp add: formatICSDateValue_def Let_def)
qed

subsection \<open>The parameter switch\<close>

lemma splitOnce_key_value:
  "CHR ''='' \<notin> set key \<Longrightarrow> CHR ''='' \<notin> set v
   \<Longrightarrow> splitOnce (key @ ''='' @ v) (CHR ''='') = (key, Some v)"
  by (simp add: splitOnce_def split_on_append split_on_none)

lemma parseParam_key:
  assumes "list_all token_char key" "key \<noteq> []" "CHR ''='' \<notin> set v" "v \<noteq> []"
  shows "parseParam strict (key @ ''='' @ v) acc = switchParam strict key v acc"
  using assms
  by (simp add: parseParam_def splitOnce_key_value tokens_no_sep(3) toUpperCase_tokens
      del: append.simps)

lemma key_tokens:
  "list_all token_char ''FREQ''" "list_all token_char ''INTERVAL''" "list_all token_char ''COUNT''"
  "list_all token_char ''UNTIL''" "list_all token_char ''WKST''" "list_all token_char ''BYDAY''"
  "list_all token_char ''BYMONTH''" "list_all token_char ''BYMONTHDAY''"
  "list_all token_char ''BYYEARDAY''" "list_all token_char ''BYWEEKNO''"
  "list_all token_char ''BYHOUR''" "list_all token_char ''BYMINUTE''"
  "list_all token_char ''BYSECOND''" "list_all token_char ''BYSETPOS''"
  by (simp_all add: token_char_def is_upper_def char_code_def)

lemma switchParam_keys:
  "switchParam strict ''FREQ'' v (fr, opt) =
           (case parseRRuleFrequency v strict of Inl e \<Rightarrow> Inl e | Inr f \<Rightarrow> Inr (Some f, opt))"
  "switchParam strict ''INTERVAL'' v (fr, opt) =
           (case parseRRuleInterval v strict of Inl e \<Rightarrow> Inl e
            | Inr n \<Rightarrow> Inr (fr, opt \<lparr> interval := Some n \<rparr>))"
  "switchParam strict ''COUNT'' v (fr, opt) =
           (case parseRRuleCount v strict of Inl e \<Rightarrow> Inl e
            | Inr c \<Rightarrow> Inr (fr, opt \<lparr> count := c \<rparr>))"
  "switchParam strict ''UNTIL'' v (fr, opt) =
           (case parseRRuleUntil v strict of Inl e \<Rightarrow> Inl e
            | Inr u \<Rightarrow> Inr (fr, opt \<lparr> until := u \<rparr>))"
  "switchParam strict ''WKST'' v (fr, opt) =
           (case parseRRuleWkst v strict of Inl e \<Rightarrow> Inl e
            | Inr w \<Rightarrow> Inr (fr, opt \<lparr> wkst := w \<rparr>))"
  "switchParam strict ''BYDAY'' v (fr, opt) =
           (case parseRRuleByDay v strict of Inl e \<Rightarrow> Inl e
            | Inr ws \<Rightarrow> Inr (fr, opt \<lparr> byweekday := Some ws \<rparr>))"
  "switchParam strict ''BYMONTH'' v (fr, opt) =
           set_numbers (parseRRuleNumberList v 1 12 True strict)
             (\<lambda>vs. opt \<lparr> bymonth := Some vs \<rparr>) fr"
  "switchParam strict ''BYMONTHDAY'' v (fr, opt) =
           set_numbers (parseRRuleNumberList v (-31) 31 True strict)
             (\<lambda>vs. opt \<lparr> bymonthday := Some vs \<rparr>) fr"
  "switchParam strict ''BYYEARDAY'' v (fr, opt) =
           set_numbers (parseRRuleNumberList v (-366) 366 True strict)
             (\<lambda>vs. opt \<lparr> byyearday := Some vs \<rparr>) fr"
  "switchParam strict ''BYWEEKNO'' v (fr, opt) =
           set_numbers (parseRRuleNumberList v (-53) 53 True strict)
             (\<lambda>vs. opt \<lparr> byweekno := Some vs \<rparr>) fr"
  "switchParam strict ''BYHOUR'' v (fr, opt) =
           set_numbers (parseRRuleNumberList v 0 23 False strict)
             (\<lambda>vs. opt \<lparr> byhour := Some vs \<rparr>) fr"
  "switchParam strict ''BYMINUTE'' v (fr, opt) =
           set_numbers (parseRRuleNumberList v 0 59 False strict)
             (\<lambda>vs. opt \<lparr> byminute := Some vs \<rparr>) fr"
  "switchParam strict ''BYSECOND'' v (fr, opt) =
           set_numbers (parseRRuleNumberList v 0 59 False strict)
             (\<lambda>vs. opt \<lparr> bysecond := Some vs \<rparr>) fr"
  "switchParam strict ''BYSETPOS'' v (fr, opt) =
           set_numbers (parseRRuleNumberList v (-366) 366 True strict)
             (\<lambda>vs. opt \<lparr> bysetpos := Some vs \<rparr>) fr"
  by (simp_all add: switchParam_def)

subsection \<open>Characters of values and parameters\<close>

lemmas parseParam_keys =
  parseParam_key[OF key_tokens(1), simplified] parseParam_key[OF key_tokens(2), simplified]
  parseParam_key[OF key_tokens(3), simplified] parseParam_key[OF key_tokens(4), simplified]
  parseParam_key[OF key_tokens(5), simplified] parseParam_key[OF key_tokens(6), simplified]
  parseParam_key[OF key_tokens(7), simplified] parseParam_key[OF key_tokens(8), simplified]
  parseParam_key[OF key_tokens(9), simplified] parseParam_key[OF key_tokens(10), simplified]
  parseParam_key[OF key_tokens(11), simplified] parseParam_key[OF key_tokens(12), simplified]
  parseParam_key[OF key_tokens(13), simplified] parseParam_key[OF key_tokens(14), simplified]

lemma parseParams_append:
  "parseParams strict xs acc = Inr acc' \<Longrightarrow> parseParams strict (xs @ ys) acc = parseParams strict ys acc'"
  by (induction xs arbitrary: acc) (auto split: sum.splits if_splits)

lemma value_char_facts:
  assumes "list_all value_char v"
  shows "CHR ''='' \<notin> set v" "CHR '';'' \<notin> set v" "\<forall>c \<in> set v. \<not> is_space c"
    "\<not> list_ex is_line_terminator v"
proof -
  have t: "\<And>c. c \<in> set v \<Longrightarrow> token_char c \<or> c = CHR '',''"
    using assms by (simp add: list_all_iff value_char_def)
  show "CHR ''='' \<notin> set v" using t token_char_not_separator(3) by fastforce
  show "CHR '';'' \<notin> set v" using t token_char_not_separator(2) by fastforce
  show "\<forall>c \<in> set v. \<not> is_space c" using t token_char_not_space comma_not_space(1) by blast
  have "\<not> is_line_terminator (CHR '','')" by (simp add: is_line_terminator_def)
  then show "\<not> list_ex is_line_terminator v"
    using t token_char_not_terminator by (auto simp: list_ex_iff)
qed

lemma tokens_value: "list_all token_char v \<Longrightarrow> list_all value_char v"
  by (simp add: list_all_iff value_char_def)

lemma join_value:
  "\<forall>x \<in> set xs. list_all token_char x \<Longrightarrow> list_all value_char (join '','' xs)"
proof -
  assume a: "\<forall>x \<in> set xs. list_all token_char x"
  have "\<And>c. c \<in> set (join '','' xs) \<Longrightarrow> value_char c"
    using set_join_subset[of "CHR '',''" xs] a by (auto simp: value_char_def list_all_iff)
  then show ?thesis by (simp add: list_all_iff)
qed

lemma part_chars:
  assumes "list_all token_char key" "list_all value_char v"
  shows "list_all part_char (key @ ''='' @ v)"
  using assms by (auto simp add: list_all_iff part_char_def value_char_def)

lemma part_char_facts:
  assumes "list_all part_char p"
  shows "CHR '';'' \<notin> set p" "\<forall>c \<in> set p. \<not> is_space c" "\<not> list_ex is_line_terminator p"
proof -
  have t: "\<And>c. c \<in> set p \<Longrightarrow> token_char c \<or> c = CHR '','' \<or> c = CHR ''=''"
    using assms by (auto simp add: list_all_iff value_char_def part_char_def)
  have e: "\<not> is_space (CHR ''='')" "\<not> is_line_terminator (CHR ''='')" "\<not> is_line_terminator (CHR '','')"
    by (simp_all add: is_space_def char_code_def is_line_terminator_def)
  show "CHR '';'' \<notin> set p" using t token_char_not_separator(2) by fastforce
  show "\<forall>c \<in> set p. \<not> is_space c" using t token_char_not_space comma_not_space(1) e(1) by blast
  show "\<not> list_ex is_line_terminator p"
    using t token_char_not_terminator e(2,3) by (auto simp: list_ex_iff)
qed

subsection \<open>One parameter at a time\<close>

lemma piece_ok_simps [simp]:
  "piece_ok []" "piece_ok (xs @ ys) \<longleftrightarrow> piece_ok xs \<and> piece_ok ys"
  by (auto simp: piece_ok_def)

lemma piece_ok_single:
  "list_all token_char key \<Longrightarrow> list_all value_char v \<Longrightarrow> piece_ok [key @ ''='' @ v]"
  using part_chars[of key v] by (simp add: piece_ok_def)

lemmas piece_ok_keys =
  piece_ok_single[OF key_tokens(1), simplified] piece_ok_single[OF key_tokens(2), simplified]
  piece_ok_single[OF key_tokens(3), simplified] piece_ok_single[OF key_tokens(4), simplified]
  piece_ok_single[OF key_tokens(5), simplified] piece_ok_single[OF key_tokens(6), simplified]
  piece_ok_single[OF key_tokens(7), simplified] piece_ok_single[OF key_tokens(8), simplified]
  piece_ok_single[OF key_tokens(9), simplified] piece_ok_single[OF key_tokens(10), simplified]
  piece_ok_single[OF key_tokens(11), simplified] piece_ok_single[OF key_tokens(12), simplified]
  piece_ok_single[OF key_tokens(13), simplified] piece_ok_single[OF key_tokens(14), simplified]

lemma piece_freq:
  "parseParams strict [''FREQ='' @ frequency_string f] (fr, opt) = Inr (Some f, opt)"
  "piece_ok [''FREQ='' @ frequency_string f]"
proof -
  note v = tokens_value[OF frequency_string_tokens[of f]]
  show "parseParams strict [''FREQ='' @ frequency_string f] (fr, opt) = Inr (Some f, opt)"
    using value_char_facts(1)[OF v]
    by (simp add: parseParam_keys switchParam_keys parseRRuleFrequency_def
        parseFrequency_frequency_string)
  show "piece_ok [''FREQ='' @ frequency_string f]" using v by (simp add: piece_ok_keys)
qed

lemma piece_interval:
  assumes "interval opt = None" "iv \<noteq> Some 1" "case iv of None \<Rightarrow> True | Some i \<Rightarrow> 1 \<le> i"
  shows "parseParams strict
           (case iv of None \<Rightarrow> [] | Some i \<Rightarrow> if i \<noteq> 1 then [''INTERVAL='' @ show_int i] else [])
           (fr, opt) = Inr (fr, opt \<lparr> interval := iv \<rparr>)"
    and "piece_ok (case iv of None \<Rightarrow> [] | Some i \<Rightarrow> if i \<noteq> 1 then [''INTERVAL='' @ show_int i] else [])"
proof -
  have n: "opt \<lparr> interval := None \<rparr> = opt" using assms(1) by (cases opt) simp
  show "parseParams strict
           (case iv of None \<Rightarrow> [] | Some i \<Rightarrow> if i \<noteq> 1 then [''INTERVAL='' @ show_int i] else [])
           (fr, opt) = Inr (fr, opt \<lparr> interval := iv \<rparr>)"
  proof (cases iv)
    case None
    then show ?thesis by (simp add: n)
  next
    case (Some i)
    note v = tokens_value[OF show_int_tokens[of i]]
    from Some assms have "0 < i" "i \<noteq> 1" by auto
    then show ?thesis using Some value_char_facts(1)[OF v]
      by (simp add: parseParam_keys switchParam_keys parseRRuleInterval_def
          parsePositiveInteger_show_int)
  qed
  show "piece_ok (case iv of None \<Rightarrow> [] | Some i \<Rightarrow> if i \<noteq> 1 then [''INTERVAL='' @ show_int i] else [])"
    using tokens_value[OF show_int_tokens] by (simp add: piece_ok_keys split: option.splits)
qed

lemma piece_count:
  assumes "count opt = None" "case cv of None \<Rightarrow> True | Some c \<Rightarrow> 1 \<le> c"
  shows "parseParams strict (case cv of None \<Rightarrow> [] | Some c \<Rightarrow> [''COUNT='' @ show_int c])
           (fr, opt) = Inr (fr, opt \<lparr> count := cv \<rparr>)"
    and "piece_ok (case cv of None \<Rightarrow> [] | Some c \<Rightarrow> [''COUNT='' @ show_int c])"
proof -
  have n: "opt \<lparr> count := None \<rparr> = opt" using assms(1) by (cases opt) simp
  show "parseParams strict (case cv of None \<Rightarrow> [] | Some c \<Rightarrow> [''COUNT='' @ show_int c])
           (fr, opt) = Inr (fr, opt \<lparr> count := cv \<rparr>)"
  proof (cases cv)
    case None
    then show ?thesis by (simp add: n)
  next
    case (Some c)
    note v = tokens_value[OF show_int_tokens[of c]]
    from Some assms have "0 < c" by auto
    then show ?thesis using Some value_char_facts(1)[OF v]
      by (simp add: parseParam_keys switchParam_keys parseRRuleCount_def
          parsePositiveInteger_show_int)
  qed
  show "piece_ok (case cv of None \<Rightarrow> [] | Some c \<Rightarrow> [''COUNT='' @ show_int c])"
    using tokens_value[OF show_int_tokens] by (simp add: piece_ok_keys split: option.splits)
qed

lemma piece_until:
  assumes "until opt = None" "case uv of None \<Rightarrow> True | Some u \<Rightarrow> printable_moment u"
  shows "parseParams strict (case uv of None \<Rightarrow> [] | Some u \<Rightarrow> [''UNTIL='' @ formatICSDateValue u])
           (fr, opt) = Inr (fr, opt \<lparr> until := uv \<rparr>)"
    and "piece_ok (case uv of None \<Rightarrow> [] | Some u \<Rightarrow> [''UNTIL='' @ formatICSDateValue u])"
proof -
  have n: "opt \<lparr> until := None \<rparr> = opt" using assms(1) by (cases opt) simp
  show "parseParams strict (case uv of None \<Rightarrow> [] | Some u \<Rightarrow> [''UNTIL='' @ formatICSDateValue u])
           (fr, opt) = Inr (fr, opt \<lparr> until := uv \<rparr>)"
  proof (cases uv)
    case None
    then show ?thesis by (simp add: n)
  next
    case (Some u)
    then have p: "printable_moment u" using assms by simp
    note t = formatICSDateValue_tokens[OF p]
    note v = tokens_value[OF t(1)]
    show ?thesis using Some value_char_facts(1)[OF v] t(2)
      by (simp add: parseParam_keys switchParam_keys parseRRuleUntil_def trim_tokens[OF t(1)]
          parseICSDateValue_format[OF p])
  qed
  show "piece_ok (case uv of None \<Rightarrow> [] | Some u \<Rightarrow> [''UNTIL='' @ formatICSDateValue u])"
    using assms(2) by (auto simp: piece_ok_keys tokens_value formatICSDateValue_tokens split: option.splits)
qed

lemma piece_wkst:
  assumes "wkst opt = None"
  shows "parseParams strict (case wv of None \<Rightarrow> [] | Some w \<Rightarrow> [''WKST='' @ weekday_string w])
           (fr, opt) = Inr (fr, opt \<lparr> wkst := wv \<rparr>)"
    and "piece_ok (case wv of None \<Rightarrow> [] | Some w \<Rightarrow> [''WKST='' @ weekday_string w])"
proof -
  have n: "opt \<lparr> wkst := None \<rparr> = opt" using assms(1) by (cases opt) simp
  show "parseParams strict (case wv of None \<Rightarrow> [] | Some w \<Rightarrow> [''WKST='' @ weekday_string w])
           (fr, opt) = Inr (fr, opt \<lparr> wkst := wv \<rparr>)"
  proof (cases wv)
    case None
    then show ?thesis by (simp add: n)
  next
    case (Some w)
    note t = weekday_string_tokens[of w]
    note v = tokens_value[OF t]
    show ?thesis using Some value_char_facts(1)[OF v]
      by (simp add: parseParam_keys switchParam_keys parseRRuleWkst_def trim_tokens[OF t]
          parseWeekday_weekday_string)
  qed
  show "piece_ok (case wv of None \<Rightarrow> [] | Some w \<Rightarrow> [''WKST='' @ weekday_string w])"
    by (auto simp: piece_ok_keys tokens_value weekday_string_tokens split: option.splits)
qed

lemma piece_byday:
  assumes "byweekday opt = None" "dv \<noteq> Some []"
    "case dv of None \<Rightarrow> True | Some l \<Rightarrow> list_all printable_term l \<and> distinct l"
  shows "parseParams strict
           (case dv of None \<Rightarrow> []
            | Some l \<Rightarrow> if length l > 0 then [''BYDAY='' @ join '','' (map formatWeekdayValue l)] else [])
           (fr, opt) = Inr (fr, opt \<lparr> byweekday := dv \<rparr>)"
    and "piece_ok (case dv of None \<Rightarrow> []
            | Some l \<Rightarrow> if length l > 0 then [''BYDAY='' @ join '','' (map formatWeekdayValue l)] else [])"
proof -
  have n: "opt \<lparr> byweekday := None \<rparr> = opt" using assms(1) by (cases opt) simp
  have v: "\<And>l. list_all value_char (join '','' (map formatWeekdayValue l))"
    by (rule join_value) (simp add: formatWeekdayValue_tokens)
  show "parseParams strict
           (case dv of None \<Rightarrow> []
            | Some l \<Rightarrow> if length l > 0 then [''BYDAY='' @ join '','' (map formatWeekdayValue l)] else [])
           (fr, opt) = Inr (fr, opt \<lparr> byweekday := dv \<rparr>)"
  proof (cases dv)
    case None
    then show ?thesis by (simp add: n)
  next
    case (Some l)
    with assms have l: "l \<noteq> []" "list_all printable_term l" "distinct l" by auto
    have ne: "join '','' (map formatWeekdayValue l) \<noteq> []"
      using l(1) by (intro join_not_Nil) auto
    show ?thesis using Some l(1) value_char_facts(1)[OF v[of l]] ne
      by (simp add: parseParam_keys switchParam_keys parseRRuleByDay_format[OF l])
  qed
  show "piece_ok (case dv of None \<Rightarrow> []
            | Some l \<Rightarrow> if length l > 0 then [''BYDAY='' @ join '','' (map formatWeekdayValue l)] else [])"
    using v by (auto simp: piece_ok_keys split: option.splits)
qed

lemma number_value:
  "list_all value_char (join '','' (map show_int l))"
  by (rule join_value) (simp add: show_int_tokens)

lemma number_value_ok:
  assumes "l \<noteq> []"
  shows "CHR ''='' \<notin> set (join '','' (map show_int l))" "join '','' (map show_int l) \<noteq> []"
proof -
  show "CHR ''='' \<notin> set (join '','' (map show_int l))"
    by (rule value_char_facts(1)[OF number_value])
  show "join '','' (map show_int l) \<noteq> []"
    using assms by (intro join_not_Nil) auto
qed

lemma in_range_Some:
  "in_range (Some l) lo hi az \<Longrightarrow> list_all (\<lambda>n. \<not> (\<not> az \<and> n = 0) \<and> lo \<le> n \<and> n \<le> hi) l \<and> distinct l"
  by (auto simp: in_range_def list_all_iff)

subsection \<open>The parameters of a rule in the order written\<close>

lemma piece_numbers:
  assumes disp: "\<And>v. CHR ''='' \<notin> set v \<Longrightarrow> v \<noteq> []
            \<Longrightarrow> parseParam strict (key @ ''='' @ v) (fr, opt)
                = set_numbers (parseRRuleNumberList v lo hi ez strict) store fr"
    and key: "list_all token_char key"
    and ne: "vs \<noteq> Some []" and rg: "in_range vs lo hi (\<not> ez)"
  shows "parseParams strict (number_part key vs) (fr, opt)
           = Inr (fr, case vs of None \<Rightarrow> opt | Some l \<Rightarrow> store l)"
    and "piece_ok (number_part key vs)"
proof -
  show "parseParams strict (number_part key vs) (fr, opt)
           = Inr (fr, case vs of None \<Rightarrow> opt | Some l \<Rightarrow> store l)"
  proof (cases vs)
    case None
    then show ?thesis by (simp add: number_part_def)
  next
    case (Some l)
    with ne have l: "l \<noteq> []" by simp
    from in_range_Some[OF rg[unfolded Some]]
    have r: "list_all (\<lambda>n. \<not> (ez \<and> n = 0) \<and> lo \<le> n \<and> n \<le> hi) l" "distinct l" by auto
    have "parseParam strict (key @ ''='' @ join '','' (map show_int l)) (fr, opt)
          = Inr (fr, store l)"
      by (simp only: disp[OF number_value_ok[OF l]] parseRRuleNumberList_join[OF l r]
          set_numbers_def sum.case)
    then show ?thesis using Some l by (simp add: number_part_def del: append.simps)
  qed
  show "piece_ok (number_part key vs)"
    using piece_ok_single[OF key number_value]
    by (auto simp: number_part_def simp del: append.simps split: option.splits)
qed

lemma parseParams_chain:
  "parseParams strict xs a = Inr b \<Longrightarrow> parseParams strict ys b = Inr c
   \<Longrightarrow> parseParams strict (xs @ ys) a = Inr c"
  by (simp add: parseParams_append)

lemma parse_rrule_parts:
  assumes sh: "sanitized_shape R" and rt: "round_trip_form R"
  shows "parseParams strict
           (rrule_parts R (case until R of None \<Rightarrow> [] | Some u \<Rightarrow> [''UNTIL='' @ formatICSDateValue u]))
           (None, plain_rule YEARLY)
         = Inr (Some (freq R), (without_dtstart R) \<lparr> freq := YEARLY \<rparr>)"
    and "piece_ok (rrule_parts R (case until R of None \<Rightarrow> [] | Some u \<Rightarrow> [''UNTIL='' @ formatICSDateValue u]))"
proof -
  let ?f = "Some (freq R)"
  define o0 where "o0 = plain_rule YEARLY"
  define o1 where "o1 = o0 \<lparr> interval := interval R \<rparr>"
  define o2 where "o2 = o1 \<lparr> count := count R \<rparr>"
  define o3 where "o3 = o2 \<lparr> until := until R \<rparr>"
  define o4 where "o4 = o3 \<lparr> wkst := wkst R \<rparr>"
  define o5 where "o5 = o4 \<lparr> bymonth := bymonth R \<rparr>"
  define o6 where "o6 = o5 \<lparr> bymonthday := bymonthday R \<rparr>"
  define o7 where "o7 = o6 \<lparr> byyearday := byyearday R \<rparr>"
  define o8 where "o8 = o7 \<lparr> byweekno := byweekno R \<rparr>"
  define o9 where "o9 = o8 \<lparr> byweekday := byweekday R \<rparr>"
  define o10 where "o10 = o9 \<lparr> byhour := byhour R \<rparr>"
  define o11 where "o11 = o10 \<lparr> byminute := byminute R \<rparr>"
  define o12 where "o12 = o11 \<lparr> bysecond := bysecond R \<rparr>"
  define o13 where "o13 = o12 \<lparr> bysetpos := bysetpos R \<rparr>"
  note os = o13_def o12_def o11_def o10_def o9_def o8_def o7_def o6_def o5_def o4_def o3_def
    o2_def o1_def o0_def plain_rule_def
  let ?p0 = "[''FREQ='' @ frequency_string (freq R)]"
  let ?p1 = "case interval R of None \<Rightarrow> [] | Some i \<Rightarrow> if i \<noteq> 1 then [''INTERVAL='' @ show_int i] else []"
  let ?p2 = "case count R of None \<Rightarrow> [] | Some c \<Rightarrow> [''COUNT='' @ show_int c]"
  let ?p3 = "case until R of None \<Rightarrow> [] | Some u \<Rightarrow> [''UNTIL='' @ formatICSDateValue u]"
  let ?p4 = "case wkst R of None \<Rightarrow> [] | Some w \<Rightarrow> [''WKST='' @ weekday_string w]"
  let ?p5 = "number_part ''BYMONTH'' (bymonth R)"
  let ?p6 = "number_part ''BYMONTHDAY'' (bymonthday R)"
  let ?p7 = "number_part ''BYYEARDAY'' (byyearday R)"
  let ?p8 = "number_part ''BYWEEKNO'' (byweekno R)"
  let ?p9 = "case byweekday R of None \<Rightarrow> []
        | Some l \<Rightarrow> if length l > 0 then [''BYDAY='' @ join '','' (map formatWeekdayValue l)] else []"
  let ?p10 = "number_part ''BYHOUR'' (byhour R)"
  let ?p11 = "number_part ''BYMINUTE'' (byminute R)"
  let ?p12 = "number_part ''BYSECOND'' (bysecond R)"
  let ?p13 = "number_part ''BYSETPOS'' (bysetpos R)"
  from sh have sh1: "case interval R of None \<Rightarrow> True | Some i \<Rightarrow> 1 \<le> i"
    and sh2: "case count R of None \<Rightarrow> True | Some c \<Rightarrow> 1 \<le> c"
    and sh9: "case byweekday R of None \<Rightarrow> True | Some l \<Rightarrow> distinct l"
    and sh5: "in_range (bymonth R) 1 12 (\<not> True)"
    and sh6: "in_range (bymonthday R) (-31) 31 (\<not> True)"
    and sh7: "in_range (byyearday R) (-366) 366 (\<not> True)"
    and sh8: "in_range (byweekno R) (-53) 53 (\<not> True)"
    and sh10: "in_range (byhour R) 0 23 (\<not> False)"
    and sh11: "in_range (byminute R) 0 59 (\<not> False)"
    and sh12: "in_range (bysecond R) 0 59 (\<not> False)"
    and sh13: "in_range (bysetpos R) (-366) 366 (\<not> True)"
    by (simp_all add: sanitized_shape_def)
  from rt have rt1: "interval R \<noteq> Some 1"
    and rt5: "bymonth R \<noteq> Some []" and rt6: "bymonthday R \<noteq> Some []"
    and rt7: "byyearday R \<noteq> Some []" and rt8: "byweekno R \<noteq> Some []"
    and rt9: "byweekday R \<noteq> Some []" and rt10: "byhour R \<noteq> Some []"
    and rt11: "byminute R \<noteq> Some []" and rt12: "bysecond R \<noteq> Some []"
    and rt13: "bysetpos R \<noteq> Some []"
    and rt9': "case byweekday R of None \<Rightarrow> True | Some l \<Rightarrow> list_all printable_term l"
    by (simp_all add: round_trip_form_def)
  have pu: "case until R of None \<Rightarrow> True | Some u \<Rightarrow> printable_moment u"
    using rt by (auto simp: round_trip_form_def split: option.splits)
  have pd: "case byweekday R of None \<Rightarrow> True | Some l \<Rightarrow> list_all printable_term l \<and> distinct l"
    using sh9 rt9' by (auto split: option.splits)
  have s0: "parseParams strict ?p0 (None, o0) = Inr (?f, o0)" and k0: "piece_ok ?p0"
    by (rule piece_freq)+
  have i1: "interval o0 = None" by (simp add: os)
  have s1: "parseParams strict ?p1 (?f, o0) = Inr (?f, o1)" and k1: "piece_ok ?p1"
    unfolding o1_def by (rule piece_interval[OF i1 rt1 sh1])+
  have i2: "count o1 = None" by (simp add: os)
  have s2: "parseParams strict ?p2 (?f, o1) = Inr (?f, o2)" and k2: "piece_ok ?p2"
    unfolding o2_def by (rule piece_count[OF i2 sh2])+
  have i3: "until o2 = None" by (simp add: os)
  have s3: "parseParams strict ?p3 (?f, o2) = Inr (?f, o3)" and k3: "piece_ok ?p3"
    unfolding o3_def by (rule piece_until[OF i3 pu])+
  have i4: "wkst o3 = None" by (simp add: os)
  have s4: "parseParams strict ?p4 (?f, o3) = Inr (?f, o4)" and k4: "piece_ok ?p4"
    unfolding o4_def by (rule piece_wkst[OF i4])+
  have i9: "byweekday o8 = None" by (simp add: os)
  have s9: "parseParams strict ?p9 (?f, o8) = Inr (?f, o9)" and k9: "piece_ok ?p9"
    unfolding o9_def by (rule piece_byday[OF i9 rt9 pd])+
  have i5: "bymonth o4 = None" by (simp add: os)
  have u5: "(case bymonth R of None \<Rightarrow> o4 | Some l \<Rightarrow> o4 \<lparr> bymonth := Some l \<rparr>) = o5"
    using i5 unfolding o5_def by (cases "bymonth R"; cases o4) simp_all
  have d5: "parseParam strict (''BYMONTH'' @ ''='' @ v) (?f, o4)
      = set_numbers (parseRRuleNumberList v 1 12 True strict) (\<lambda>l. o4 \<lparr> bymonth := Some l \<rparr>) ?f"
    if "CHR ''='' \<notin> set v" "v \<noteq> []" for v
    using that by (simp add: parseParam_keys switchParam_keys)
  have s5: "parseParams strict ?p5 (?f, o4) = Inr (?f, o5)" and k5: "piece_ok ?p5"
    unfolding u5[symmetric] by (rule piece_numbers[OF d5 key_tokens(7) rt5 sh5]; assumption)+
  have i6: "bymonthday o5 = None" by (simp add: os)
  have u6: "(case bymonthday R of None \<Rightarrow> o5 | Some l \<Rightarrow> o5 \<lparr> bymonthday := Some l \<rparr>) = o6"
    using i6 unfolding o6_def by (cases "bymonthday R"; cases o5) simp_all
  have d6: "parseParam strict (''BYMONTHDAY'' @ ''='' @ v) (?f, o5)
      = set_numbers (parseRRuleNumberList v (-31) 31 True strict) (\<lambda>l. o5 \<lparr> bymonthday := Some l \<rparr>) ?f"
    if "CHR ''='' \<notin> set v" "v \<noteq> []" for v
    using that by (simp add: parseParam_keys switchParam_keys)
  have s6: "parseParams strict ?p6 (?f, o5) = Inr (?f, o6)" and k6: "piece_ok ?p6"
    unfolding u6[symmetric] by (rule piece_numbers[OF d6 key_tokens(8) rt6 sh6]; assumption)+
  have i7: "byyearday o6 = None" by (simp add: os)
  have u7: "(case byyearday R of None \<Rightarrow> o6 | Some l \<Rightarrow> o6 \<lparr> byyearday := Some l \<rparr>) = o7"
    using i7 unfolding o7_def by (cases "byyearday R"; cases o6) simp_all
  have d7: "parseParam strict (''BYYEARDAY'' @ ''='' @ v) (?f, o6)
      = set_numbers (parseRRuleNumberList v (-366) 366 True strict) (\<lambda>l. o6 \<lparr> byyearday := Some l \<rparr>) ?f"
    if "CHR ''='' \<notin> set v" "v \<noteq> []" for v
    using that by (simp add: parseParam_keys switchParam_keys)
  have s7: "parseParams strict ?p7 (?f, o6) = Inr (?f, o7)" and k7: "piece_ok ?p7"
    unfolding u7[symmetric] by (rule piece_numbers[OF d7 key_tokens(9) rt7 sh7]; assumption)+
  have i8: "byweekno o7 = None" by (simp add: os)
  have u8: "(case byweekno R of None \<Rightarrow> o7 | Some l \<Rightarrow> o7 \<lparr> byweekno := Some l \<rparr>) = o8"
    using i8 unfolding o8_def by (cases "byweekno R"; cases o7) simp_all
  have d8: "parseParam strict (''BYWEEKNO'' @ ''='' @ v) (?f, o7)
      = set_numbers (parseRRuleNumberList v (-53) 53 True strict) (\<lambda>l. o7 \<lparr> byweekno := Some l \<rparr>) ?f"
    if "CHR ''='' \<notin> set v" "v \<noteq> []" for v
    using that by (simp add: parseParam_keys switchParam_keys)
  have s8: "parseParams strict ?p8 (?f, o7) = Inr (?f, o8)" and k8: "piece_ok ?p8"
    unfolding u8[symmetric] by (rule piece_numbers[OF d8 key_tokens(10) rt8 sh8]; assumption)+
  have i10: "byhour o9 = None" by (simp add: os)
  have u10: "(case byhour R of None \<Rightarrow> o9 | Some l \<Rightarrow> o9 \<lparr> byhour := Some l \<rparr>) = o10"
    using i10 unfolding o10_def by (cases "byhour R"; cases o9) simp_all
  have d10: "parseParam strict (''BYHOUR'' @ ''='' @ v) (?f, o9)
      = set_numbers (parseRRuleNumberList v 0 23 False strict) (\<lambda>l. o9 \<lparr> byhour := Some l \<rparr>) ?f"
    if "CHR ''='' \<notin> set v" "v \<noteq> []" for v
    using that by (simp add: parseParam_keys switchParam_keys)
  have s10: "parseParams strict ?p10 (?f, o9) = Inr (?f, o10)" and k10: "piece_ok ?p10"
    unfolding u10[symmetric] by (rule piece_numbers[OF d10 key_tokens(11) rt10 sh10]; assumption)+
  have i11: "byminute o10 = None" by (simp add: os)
  have u11: "(case byminute R of None \<Rightarrow> o10 | Some l \<Rightarrow> o10 \<lparr> byminute := Some l \<rparr>) = o11"
    using i11 unfolding o11_def by (cases "byminute R"; cases o10) simp_all
  have d11: "parseParam strict (''BYMINUTE'' @ ''='' @ v) (?f, o10)
      = set_numbers (parseRRuleNumberList v 0 59 False strict) (\<lambda>l. o10 \<lparr> byminute := Some l \<rparr>) ?f"
    if "CHR ''='' \<notin> set v" "v \<noteq> []" for v
    using that by (simp add: parseParam_keys switchParam_keys)
  have s11: "parseParams strict ?p11 (?f, o10) = Inr (?f, o11)" and k11: "piece_ok ?p11"
    unfolding u11[symmetric] by (rule piece_numbers[OF d11 key_tokens(12) rt11 sh11]; assumption)+
  have i12: "bysecond o11 = None" by (simp add: os)
  have u12: "(case bysecond R of None \<Rightarrow> o11 | Some l \<Rightarrow> o11 \<lparr> bysecond := Some l \<rparr>) = o12"
    using i12 unfolding o12_def by (cases "bysecond R"; cases o11) simp_all
  have d12: "parseParam strict (''BYSECOND'' @ ''='' @ v) (?f, o11)
      = set_numbers (parseRRuleNumberList v 0 59 False strict) (\<lambda>l. o11 \<lparr> bysecond := Some l \<rparr>) ?f"
    if "CHR ''='' \<notin> set v" "v \<noteq> []" for v
    using that by (simp add: parseParam_keys switchParam_keys)
  have s12: "parseParams strict ?p12 (?f, o11) = Inr (?f, o12)" and k12: "piece_ok ?p12"
    unfolding u12[symmetric] by (rule piece_numbers[OF d12 key_tokens(13) rt12 sh12]; assumption)+
  have i13: "bysetpos o12 = None" by (simp add: os)
  have u13: "(case bysetpos R of None \<Rightarrow> o12 | Some l \<Rightarrow> o12 \<lparr> bysetpos := Some l \<rparr>) = o13"
    using i13 unfolding o13_def by (cases "bysetpos R"; cases o12) simp_all
  have d13: "parseParam strict (''BYSETPOS'' @ ''='' @ v) (?f, o12)
      = set_numbers (parseRRuleNumberList v (-366) 366 True strict) (\<lambda>l. o12 \<lparr> bysetpos := Some l \<rparr>) ?f"
    if "CHR ''='' \<notin> set v" "v \<noteq> []" for v
    using that by (simp add: parseParam_keys switchParam_keys)
  have s13: "parseParams strict ?p13 (?f, o12) = Inr (?f, o13)" and k13: "piece_ok ?p13"
    unfolding u13[symmetric] by (rule piece_numbers[OF d13 key_tokens(14) rt13 sh13]; assumption)+
  show "piece_ok (rrule_parts R ?p3)"
    unfolding rrule_parts_def piece_ok_simps
    by (intro conjI k0 k1 k2 k3 k4 k5 k6 k7 k8 k9 k10 k11 k12 k13)
  have fin: "o13 = (without_dtstart R) \<lparr> freq := YEARLY \<rparr>"
    by (cases R) (simp add: os without_dtstart_def)
  show "parseParams strict (rrule_parts R ?p3) (None, plain_rule YEARLY)
         = Inr (Some (freq R), (without_dtstart R) \<lparr> freq := YEARLY \<rparr>)"
    unfolding rrule_parts_def fin[symmetric] o0_def[symmetric]
    by (rule parseParams_chain[OF s0],
        rule parseParams_chain[OF s1],
        rule parseParams_chain[OF s2],
        rule parseParams_chain[OF s3],
        rule parseParams_chain[OF s4],
        rule parseParams_chain[OF s5],
        rule parseParams_chain[OF s6],
        rule parseParams_chain[OF s7],
        rule parseParams_chain[OF s8],
        rule parseParams_chain[OF s9],
        rule parseParams_chain[OF s10],
        rule parseParams_chain[OF s11],
        rule parseParams_chain[OF s12],
        rule s13)
qed

subsection \<open>The rule line\<close>

lemma unfoldLine_no_newline: "CHR 0x0A \<notin> set s \<Longrightarrow> unfoldLine s = s"
proof (induction s)
  case Nil
  then show ?case by simp
next
  case (Cons a rest)
  then have a: "a \<noteq> CHR 0x0A" and r: "unfoldLine rest = rest" and n: "CHR 0x0A \<notin> set rest"
    by auto
  show ?case
  proof (cases rest)
    case Nil
    then show ?thesis by simp
  next
    case (Cons b rest2)
    with n have b: "b \<noteq> CHR 0x0A" by auto
    show ?thesis
      by (subst unfoldLine.simps) (use a b r Cons in \<open>cases rest2; simp del: unfoldLine.simps\<close>)
  qed
qed

lemma formatUntil_same_variant:
  assumes "same_variant u d" "\<not> compare u d < 0"
  shows "formatUntilICSDateValue u (Some d) = Inr (formatICSDateValue u)"
  using assms by (cases u; cases d) (simp_all add: formatUntilICSDateValue_def same_variant_def)

lemma rrule_parts_not_Nil: "rrule_parts R up \<noteq> []"
  by (simp add: rrule_parts_def)

lemma rule_body:
  assumes "piece_ok parts" "parts \<noteq> []"
  shows "parseList (join '';'' parts) (CHR '';'') = parts"
    and "join '';'' parts \<noteq> []"
    and "\<forall>c \<in> set (join '';'' parts). \<not> is_space c"
    and "\<not> list_ex is_line_terminator (join '';'' parts)"
    and "CHR '':'' \<notin> set (join '';'' parts)"
proof -
  have p: "\<forall>p \<in> set parts. p \<noteq> [] \<and> CHR '';'' \<notin> set p \<and> (\<forall>c \<in> set p. \<not> is_space c)"
    using assms(1) part_char_facts(1,2) by (auto simp: piece_ok_def)
  show "parseList (join '';'' parts) (CHR '';'') = parts"
    by (rule parseList_join[OF assms(2) p comma_not_space(2)])
  show "join '';'' parts \<noteq> []" using assms(2) p by (intro join_not_Nil) auto
  show "\<forall>c \<in> set (join '';'' parts). \<not> is_space c"
    using set_join_subset[of "CHR '';''" parts] p comma_not_space(2) by auto
  have t: "\<And>q c. q \<in> set parts \<Longrightarrow> c \<in> set q \<Longrightarrow> \<not> is_line_terminator c"
    using assms(1) part_char_facts(3) by (auto simp: piece_ok_def list_ex_iff)
  have s: "\<not> is_line_terminator (CHR '';'')" by (simp add: is_line_terminator_def)
  show "\<not> list_ex is_line_terminator (join '';'' parts)"
    using set_join_subset[of "CHR '';''" parts] t s by (auto simp: list_ex_iff)
  have "c \<noteq> CHR '':''" if "part_char c" for c
    using that token_char_not_separator(4)[of c] by (auto simp: part_char_def value_char_def)
  then have "\<And>q. q \<in> set parts \<Longrightarrow> CHR '':'' \<notin> set q"
    using assms(1) by (auto simp: piece_ok_def list_all_iff)
  then show "CHR '':'' \<notin> set (join '';'' parts)"
    using set_join_subset[of "CHR '';''" parts] by auto
qed

lemma rrule_prefix: "toUpperCase ''RRULE:'' = ''RRULE:''"
  by (simp add: toUpperCase_def upper_char_def is_lower_def char_code_def)

lemma rule_line:
  assumes "piece_ok parts" "parts \<noteq> []"
  shows "trim (''RRULE:'' @ join '';'' parts) = ''RRULE:'' @ join '';'' parts"
    and "CHR 0x0A \<notin> set (''RRULE:'' @ join '';'' parts)"
    and "match_rrule (''RRULE:'' @ join '';'' parts) = Some (join '';'' parts)"
proof -
  note b = rule_body[OF assms]
  have pre: "\<forall>c \<in> set ''RRULE:''. \<not> is_space c \<and> \<not> is_line_terminator c"
    by (simp add: is_space_def is_line_terminator_def char_code_def)
  have ns: "\<forall>c \<in> set (''RRULE:'' @ join '';'' parts). \<not> is_space c"
    using pre b(3) by (simp del: append.simps)
  show "trim (''RRULE:'' @ join '';'' parts) = ''RRULE:'' @ join '';'' parts"
    using ns by (rule trim_no_space)
  have "is_line_terminator (CHR 0x0A)" by (simp add: is_line_terminator_def)
  then show "CHR 0x0A \<notin> set (''RRULE:'' @ join '';'' parts)"
    using b(4) by (auto simp: list_ex_iff)
  have t: "take 6 (''RRULE:'' @ join '';'' parts) = ''RRULE:''"
    and d: "drop 6 (''RRULE:'' @ join '';'' parts) = join '';'' parts" by simp_all
  show "match_rrule (''RRULE:'' @ join '';'' parts) = Some (join '';'' parts)"
    unfolding match_rrule_def t d rrule_prefix using b(2,4) by simp
qed

lemma in_range_safe: "in_range vs lo hi az \<Longrightarrow> - 366 \<le> lo \<Longrightarrow> hi \<le> 366 \<Longrightarrow> safe_numbers vs"
  by (auto simp: in_range_def safe_numbers_def isSafeInteger_def MAX_SAFE_INTEGER_def
      list_all_iff split: option.splits)

lemma printable_term_safe: "printable_term w \<Longrightarrow> safe_term w"
  by (cases w) (simp_all add: isSafeInteger_def MAX_SAFE_INTEGER_def)

lemma numbers_modelled_shape:
  assumes sh: "sanitized_shape R" and rt: "round_trip_form R"
  shows "numbers_modelled R"
proof -
  have w: "case byweekday R of None \<Rightarrow> True | Some l \<Rightarrow> list_all safe_term l"
    using rt by (auto simp: round_trip_form_def list_all_iff printable_term_safe
        split: option.splits)
  have n: "safe_numbers (bymonth R)" "safe_numbers (bymonthday R)" "safe_numbers (byyearday R)"
    "safe_numbers (byweekno R)" "safe_numbers (byhour R)" "safe_numbers (byminute R)"
    "safe_numbers (bysecond R)" "safe_numbers (bysetpos R)"
    using sh by (auto simp: sanitized_shape_def intro: in_range_safe)
  have ic: "case interval R of None \<Rightarrow> True | Some i \<Rightarrow> isSafeInteger i"
    "case count R of None \<Rightarrow> True | Some c \<Rightarrow> isSafeInteger c"
    using rt by (simp_all add: round_trip_form_def)
  show ?thesis unfolding numbers_modelled_def using w n ic by simp
qed

lemma formatRRule_text:
  assumes sh: "sanitized_shape R" and rt: "round_trip_form R"
  shows "formatRRule R = Inr (''RRULE:'' @ join '';''
           (rrule_parts R (case until R of None \<Rightarrow> [] | Some u \<Rightarrow> [''UNTIL='' @ formatICSDateValue u])))"
proof (cases "until R")
  case None
  then show ?thesis by (simp add: formatRRule_def numbers_modelled_shape[OF sh rt])
next
  case (Some u)
  have "formatUntilICSDateValue u (dtstart R) = Inr (formatICSDateValue u)"
  proof (cases "dtstart R")
    case None
    then show ?thesis by (simp add: formatUntilICSDateValue_def)
  next
    case (Some d)
    have "same_variant u d" using rt \<open>until R = Some u\<close> Some by (simp add: round_trip_form_def)
    moreover have "\<not> compare u d < 0"
      using sh \<open>until R = Some u\<close> Some by (simp add: sanitized_shape_def)
    ultimately show ?thesis unfolding Some by (rule formatUntil_same_variant)
  qed
  then show ?thesis using Some by (simp add: formatRRule_def numbers_modelled_shape[OF sh rt])
qed

lemma parseRRule_rule_line:
  assumes sh: "sanitized_shape R" and rt: "round_trip_form R"
  shows "parseRRule (''RRULE:'' @ join '';''
           (rrule_parts R (case until R of None \<Rightarrow> [] | Some u \<Rightarrow> [''UNTIL='' @ formatICSDateValue u])))
           strict = Inr (without_dtstart R)"
proof -
  let ?parts = "rrule_parts R (case until R of None \<Rightarrow> [] | Some u \<Rightarrow> [''UNTIL='' @ formatICSDateValue u])"
  note pr = parse_rrule_parts(1)[OF sh rt, of strict] parse_rrule_parts(2)[OF sh rt]
  note rl = rule_line[OF pr(2) rrule_parts_not_Nil]
  note rb = rule_body[OF pr(2) rrule_parts_not_Nil]
  have ex: "\<not> (count R \<noteq> None \<and> until R \<noteq> None)" using sh by (simp add: sanitized_shape_def)
  have fin: "(without_dtstart R) \<lparr> freq := YEARLY, freq := freq R \<rparr> = without_dtstart R"
    by (cases R) (simp add: without_dtstart_def)
  have cu: "count ((without_dtstart R) \<lparr> freq := YEARLY \<rparr>) = count R"
    "until ((without_dtstart R) \<lparr> freq := YEARLY \<rparr>) = until R"
    by (simp_all add: without_dtstart_def)
  show ?thesis
    unfolding parseRRule_def rl(1) unfoldLine_no_newline[OF rl(2)] Let_def rl(3)
    using ex by (simp add: rb(1) pr(1) cu fin del: append.simps)
qed

subsection \<open>What the sanitizer guarantees; the two lines of the text\<close>

lemma sanitizeNumber_at_least_1:
  "case sanitizeNumber v (Some 1) None False of None \<Rightarrow> True | Some i \<Rightarrow> 1 \<le> i"
  by (simp add: sanitizeNumber_def Let_def split: option.splits)

lemma sanitized_shape_sanitize:
  assumes "sanitizeRRuleOptions options = Inr R"
  shows "sanitized_shape R"
proof -
  from assms have R: "R = parsed_of options" and ub: "\<not> until_before_dtstart options"
    and cu: "\<not> (count (parsed_of options) \<noteq> None \<and> in_until options \<noteq> None)"
    by (simp_all add: sanitizeRRuleOptions_eq split: if_splits)
  have f: "interval R = sanitizeNumber (in_interval options) (Some 1) None False"
    "count R = sanitizeNumber (in_count options) (Some 1) None False"
    "until R = in_until options" "dtstart R = in_dtstart options"
    "bysetpos R = sanitizeNumberArray (in_bysetpos options) (-366) 366 False"
    "bymonth R = sanitizeNumberArray (in_bymonth options) 1 12 False"
    "bymonthday R = sanitizeNumberArray (in_bymonthday options) (-31) 31 False"
    "byyearday R = sanitizeNumberArray (in_byyearday options) (-366) 366 False"
    "byweekno R = sanitizeNumberArray (in_byweekno options) (-53) 53 False"
    "byhour R = sanitizeNumberArray (in_byhour options) 0 23 True"
    "byminute R = sanitizeNumberArray (in_byminute options) 0 59 True"
    "bysecond R = sanitizeNumberArray (in_bysecond options) 0 59 True"
    "byweekday R = sanitizeWeekdayValueArray (in_byweekday options)"
    unfolding R by (simp_all add: parsed_of_def)
  have u: "case (until R, dtstart R) of (Some u, Some d) \<Rightarrow> \<not> compare u d < 0 | _ \<Rightarrow> True"
    using ub unfolding f until_before_dtstart_def by (simp split: option.splits)
  have c: "\<not> (count R \<noteq> None \<and> until R \<noteq> None)"
    using cu f(3) unfolding R by simp
  have w: "case byweekday R of None \<Rightarrow> True | Some l \<Rightarrow> distinct l"
    unfolding f sanitizeWeekdayValueArray_def
    by (simp add: distinct_uniqueWeekdayValues split: option.splits)
  show ?thesis
    unfolding sanitized_shape_def
    using u c w sanitizeNumber_at_least_1[of "in_interval options"]
      sanitizeNumber_at_least_1[of "in_count options"]
    by (simp add: f(1,2,5-12) in_range_sanitizeNumberArray)
qed

lemma unfoldLine_two_lines:
  assumes "CHR 0x0A \<notin> set a" "CHR 0x0A \<notin> set b" "b \<noteq> []" "\<not> is_blank (hd b)"
  shows "unfoldLine (a @ CHR 0x0A # b) = a @ CHR 0x0A # b"
  using assms(1)
proof (induction a)
  case Nil
  obtain c b' where b: "b = c # b'" using assms(3) by (cases b) auto
  have c: "\<not> is_blank c" using assms(4) b by simp
  have r: "unfoldLine (c # b') = c # b'" using unfoldLine_no_newline[OF assms(2)] b by simp
  show ?case unfolding b append_Nil
    by (subst unfoldLine.simps) (use c r in \<open>cases b'; simp del: unfoldLine.simps\<close>)
next
  case (Cons x a)
  then have x: "x \<noteq> CHR 0x0A" and ih: "unfoldLine (a @ CHR 0x0A # b) = a @ CHR 0x0A # b"
    and na: "CHR 0x0A \<notin> set a" by auto
  obtain c b' where b: "b = c # b'" using assms(3) by (cases b) auto
  have c: "\<not> is_blank c" using assms(4) b by simp
  show ?case
  proof (cases a)
    case Nil
    show ?thesis unfolding Nil b append_Nil append_Cons
      by (subst unfoldLine.simps) (use x c ih[unfolded Nil b append_Nil] in \<open>simp del: unfoldLine.simps\<close>)
  next
    case (Cons y a')
    with na have y: "y \<noteq> CHR 0x0A" by auto
    obtain z r where t: "a' @ CHR 0x0A # b = z # r" by (cases a') auto
    show ?thesis unfolding Cons append_Cons t
      by (subst unfoldLine.simps) (use x y ih[unfolded Cons append_Cons t] in \<open>simp del: unfoldLine.simps\<close>)
  qed
qed

lemma split_lines_one: "CHR 0x0A \<notin> set a \<Longrightarrow> split_lines a = [a]"
  by (simp add: split_lines_def split_on_none)

lemma split_lines_two:
  assumes "CHR 0x0A \<notin> set a" "CHR 0x0A \<notin> set b" "CHR 0x0D \<notin> set a"
  shows "split_lines (a @ CHR 0x0A # b) = [a, b]"
proof -
  have "\<not> (a \<noteq> [] \<and> last a = CHR 0x0D)" using assms(3) last_in_set[of a] by metis
  then show ?thesis
    using assms(1,2) by (auto simp add: split_lines_def split_on_append split_on_none)
qed

lemma dtstart_prefix: "toUpperCase ''DTSTART'' = ''DTSTART''"
  by (simp add: toUpperCase_def upper_char_def is_lower_def char_code_def)

lemma rule_line_is_not_dtstart: "toUpperCase (take 7 (''RRULE:'' @ x)) \<noteq> ''DTSTART''"
  by (simp add: toUpperCase_def upper_char_def is_lower_def char_code_def)

lemma parseDTStart_format:
  assumes "printable_moment d"
  shows "parseDTStart (formatDTStart d) strict = Inr (Some d)"
    and "\<forall>c \<in> set (formatDTStart d). \<not> is_space c"
    and "CHR 0x0A \<notin> set (formatDTStart d)" and "CHR 0x0D \<notin> set (formatDTStart d)"
    and "toUpperCase (take 7 (formatDTStart d)) = ''DTSTART''"
proof -
  note t = formatICSDateValue_tokens[OF assms]
  note n = tokens_no_sep[OF t(1)]
  have pre: "\<forall>c \<in> set ''DTSTART:''. \<not> is_space c"
    by (simp add: is_space_def char_code_def)
  show ns: "\<forall>c \<in> set (formatDTStart d). \<not> is_space c"
    unfolding formatDTStart_def using pre n(4) by (simp del: append.simps)
  show "CHR 0x0A \<notin> set (formatDTStart d)" "CHR 0x0D \<notin> set (formatDTStart d)"
    unfolding formatDTStart_def using n(5,6) by simp_all
  show up: "toUpperCase (take 7 (formatDTStart d)) = ''DTSTART''"
    unfolding formatDTStart_def using dtstart_prefix by simp
  have tr: "trim (formatDTStart d) = formatDTStart d" using ns by (rule trim_no_space)
  have lt: "\<not> list_ex is_line_terminator (formatICSDateValue d)"
    using n(5,6) by (auto simp: list_ex_iff is_line_terminator_def)
  have len: "2 \<le> length (CHR '':'' # formatICSDateValue d)"
    using t(2) by (cases "formatICSDateValue d") simp_all
  have m: "match_dtstart (formatDTStart d) = Some ([], formatICSDateValue d)"
    unfolding match_dtstart_def Let_def up
    using lt len by (simp add: formatDTStart_def)
  show "parseDTStart (formatDTStart d) strict = Inr (Some d)"
    unfolding parseDTStart_def tr m
    by (simp add: parseICSDateValue_format[OF assms])
qed

subsection \<open>The round trip\<close>

lemma dropWhile_hd: "xs \<noteq> [] \<Longrightarrow> \<not> P (hd xs) \<Longrightarrow> dropWhile P xs = xs"
  by (cases xs) auto

lemma trim_ends: "s \<noteq> [] \<Longrightarrow> \<not> is_space (hd s) \<Longrightarrow> \<not> is_space (last s) \<Longrightarrow> trim s = s"
  by (simp add: trim_def dropWhile_hd hd_rev)

lemma trim_two_lines:
  assumes "a \<noteq> []" "b \<noteq> []" "\<forall>c \<in> set a. \<not> is_space c" "\<forall>c \<in> set b. \<not> is_space c"
  shows "trim (a @ x # b) = a @ x # b"
proof (rule trim_ends)
  show "a @ x # b \<noteq> []" by simp
  show "\<not> is_space (hd (a @ x # b))" using assms(1,3) by (simp add: hd_append)
  show "\<not> is_space (last (a @ x # b))" using assms(2,4) by simp
qed

lemma parseICS_formatICS:
  assumes sh: "sanitized_shape R" and rt: "round_trip_form R"
  shows "\<exists>text. formatICS R = Inr text \<and> parseICS text strict = Inr R"
proof -
  let ?parts = "rrule_parts R (case until R of None \<Rightarrow> [] | Some u \<Rightarrow> [''UNTIL='' @ formatICSDateValue u])"
  let ?line = "''RRULE:'' @ join '';'' ?parts"
  note fr = formatRRule_text[OF sh rt]
  note pk = parse_rrule_parts(2)[OF sh rt]
  note rl = rule_line[OF pk rrule_parts_not_Nil]
  note rb = rule_body[OF pk rrule_parts_not_Nil]
  note pr = parseRRule_rule_line[OF sh rt, of strict]
  have pre: "\<forall>c \<in> set ''RRULE:''. \<not> is_space c \<and> \<not> is_blank c \<and> c \<noteq> CHR 0x0D"
    by (simp add: is_space_def is_blank_def char_code_def)
  have ns: "\<forall>c \<in> set ?line. \<not> is_space c"
    using pre rb(3) by (simp del: append.simps)
  have ne: "?line \<noteq> []" by simp
  have hd: "\<not> is_blank (hd ?line)" by (simp add: is_blank_def)
  have up: "toUpperCase (take 6 ?line) = ''RRULE:''" using rrule_prefix by simp
  have sc: "scanLines strict [?line] dt None = Inr (dt, Some ?line)" for dt
    using rule_line_is_not_dtstart[of "join '';'' ?parts"] up
    by (simp del: append.simps take_append)
  show ?thesis
  proof (cases "dtstart R")
    case None
    have f: "formatICS R = Inr ?line" by (simp add: formatICS_def fr None)
    have R: "without_dtstart R = R" using None by (cases R) (simp add: without_dtstart_def)
    have "parseICS ?line strict = Inr R"
      unfolding parseICS_def rl(1) unfoldLine_no_newline[OF rl(2)] split_lines_one[OF rl(2)] Let_def
      using ne by (simp add: trim_no_space[OF ns] sc pr R del: append.simps scanLines.simps)
    with f show ?thesis by blast
  next
    case (Some d)
    then have pm: "printable_moment d" using rt by (simp add: round_trip_form_def)
    note pd = parseDTStart_format(1)[OF pm, of strict] parseDTStart_format(2-5)[OF pm]
    let ?text = "formatDTStart d @ CHR 0x0A # ?line"
    have f: "formatICS R = Inr ?text" by (simp add: formatICS_def fr Some)
    have R: "(without_dtstart R) \<lparr> dtstart := Some d \<rparr> = R"
      using Some by (cases R) (simp add: without_dtstart_def)
    have d_ne: "formatDTStart d \<noteq> []" by (simp add: formatDTStart_def)
    have nl: "\<not> is_space c \<Longrightarrow> c \<noteq> CHR 0x0A" for c
      by (auto simp: is_space_def char_code_def)
    have sp: "is_space (CHR 0x0A)" by (simp add: is_space_def char_code_def)
    have tr: "trim ?text = ?text"
      by (rule trim_two_lines[OF d_ne ne pd(2) ns])
    have un: "unfoldLine ?text = ?text"
      by (rule unfoldLine_two_lines[OF pd(3) rl(2) ne hd])
    have sl: "split_lines ?text = [formatDTStart d, ?line]"
      by (rule split_lines_two[OF pd(3) rl(2) pd(4)])
    have sc2: "scanLines strict [formatDTStart d, ?line] None None = Inr (Some d, Some ?line)"
      by (subst scanLines.simps)
        (simp add: pd(5) pd(1) sc[of "Some d"] del: append.simps take_append scanLines.simps)
    have "parseICS ?text strict = Inr R"
      unfolding parseICS_def tr un sl Let_def
      using ne d_ne
      by (simp add: trim_no_space[OF ns] trim_no_space[OF pd(2)] sc2 pr R
          del: append.simps scanLines.simps)
    with f show ?thesis by blast
  qed
qed

text \<open>
  Claim C5, as amended.  For every rule \<open>R\<close> the sanitizer returns that is in the form the
  text represents faithfully (the interval is not the default 1, no selector list is present
  but empty, no weekday ordinal is 0, the anchors are dates of the years 1 to 9999 with a
  time of day in whole seconds, and an UNTIL has the variant of the DTSTART), formatting
  succeeds and parsing the text gives \<open>R\<close> again, field for field and with the selector lists
  in their order: \<^verbatim>\<open>parseRRule\<close> of \<^verbatim>\<open>formatRRule\<close> gives \<open>R\<close> without its dtstart (which
  the rule line does not carry), and \<^verbatim>\<open>parseICS\<close> of \<^verbatim>\<open>formatICS\<close> gives \<open>R\<close>, in strict and
  in lenient mode.
\<close>

theorem parse_format_round_trip:
  assumes "sanitizeRRuleOptions options = Inr R" and "round_trip_form R"
  shows "(\<exists>line. formatRRule R = Inr line \<and> parseRRule line strict = Inr (without_dtstart R))
       \<and> (\<exists>text. formatICS R = Inr text \<and> parseICS text strict = Inr R)"
proof -
  note sh = sanitized_shape_sanitize[OF assms(1)]
  show ?thesis
    using formatRRule_text[OF sh assms(2)] parseRRule_rule_line[OF sh assms(2), of strict]
      parseICS_formatICS[OF sh assms(2), of strict]
    by simp
qed

theorem parse_format_round_trip_witness:
  "sanitizeRRuleOptions options_every_other_week = Inr rule_every_other_week
   \<and> round_trip_form rule_every_other_week
   \<and> (\<exists>line. formatRRule rule_every_other_week = Inr line
          \<and> parseRRule line True = Inr (without_dtstart rule_every_other_week))
   \<and> (\<exists>text. formatICS rule_every_other_week = Inr text
          \<and> parseICS text True = Inr rule_every_other_week)"
proof -
  have a: "sanitizeRRuleOptions options_every_other_week = Inr rule_every_other_week"
    by code_simp
  have b: "round_trip_form rule_every_other_week" by code_simp
  from parse_format_round_trip[OF a b, of True] a b show ?thesis by simp
qed

text \<open>
  Claim C5 as stated covers every sanitized rule.  The sanitizer keeps an interval of 1; the
  formatter omits \<^verbatim>\<open>INTERVAL\<close> when it is 1, and the parser leaves the interval absent.
\<close>

theorem round_trip_interval_1_counterexample:
  "sanitizeRRuleOptions options_interval_1 = Inr rule_interval_1
   \<and> formatRRule rule_interval_1 = Inr ''RRULE:FREQ=DAILY''
   \<and> parseRRule ''RRULE:FREQ=DAILY'' True = Inr (plain_rule DAILY)
   \<and> formatICS rule_interval_1 = Inr ''RRULE:FREQ=DAILY''
   \<and> parseICS ''RRULE:FREQ=DAILY'' True = Inr (plain_rule DAILY)
   \<and> interval (plain_rule DAILY) = None \<and> interval rule_interval_1 = Some 1"
proof -
  have s: "sanitizeRRuleOptions options_interval_1 = Inr rule_interval_1" by code_simp
  have f: "formatRRule rule_interval_1 = Inr ''RRULE:FREQ=DAILY''" by code_simp
  have g: "formatICS rule_interval_1 = Inr ''RRULE:FREQ=DAILY''" by code_simp
  have i: "interval (plain_rule DAILY) = None" "interval rule_interval_1 = Some 1"
    by code_simp+
  have sh: "sanitized_shape (plain_rule DAILY)" by code_simp
  have rt: "round_trip_form (plain_rule DAILY)" by code_simp
  have f': "formatRRule (plain_rule DAILY) = Inr ''RRULE:FREQ=DAILY''" by code_simp
  have g': "formatICS (plain_rule DAILY) = Inr ''RRULE:FREQ=DAILY''" by code_simp
  have w: "without_dtstart (plain_rule DAILY) = plain_rule DAILY" by code_simp
  have p: "parseRRule ''RRULE:FREQ=DAILY'' True = Inr (plain_rule DAILY)"
    using parseRRule_rule_line[OF sh rt, of True] f'[unfolded formatRRule_text[OF sh rt]]
    by (simp add: w)
  have q: "parseICS ''RRULE:FREQ=DAILY'' True = Inr (plain_rule DAILY)"
    using parseICS_formatICS[OF sh rt, of True] by (simp add: g')
  from s f g i p q show ?thesis by simp
qed

end
